theory Spec2Isabelle
  imports Main "HOL-Library.Word"
begin

unbundle bit_operations_syntax

section \<open>Data model\<close>

text \<open>
  The transaction manager of \<^verbatim>\<open>transaction/transaction_manager.h\<close> and its
  implementation. Objects reached through pointers live in explicit stores: a pointer is
  an address (a natural number), a nullable pointer is an \<open>option\<close>. A timestamp is the
  unsigned 64-bit value behind \<^verbatim>\<open>timestamp_t\<close>; its arithmetic wraps around and its
  order is the unsigned one. Latches are not modelled: the embedding is sequential, every
  operation runs to its end before the next one starts.
\<close>

type_synonym timestamp_t = "64 word"
type_synonym thread_ref = nat
type_synonym txn_ref = nat
type_synonym undo_ref = nat
type_synonym table_ref = nat
type_synonym TupleSlot = nat
type_synonym col_id_t = nat
type_synonym byte_ptr = nat
type_synonym callback_fn = nat
type_synonym callback_arg = nat
type_synonym worker_id_t = nat

text \<open>
  What can stop an operation: a failed \<^verbatim>\<open>TERRIER_ASSERT\<close> (when assertions are compiled
  in), the \<^verbatim>\<open>std::runtime_error\<close> thrown by \<^verbatim>\<open>Rollback\<close>, and the dereference of a null
  pointer.
\<close>

datatype error = AssertionFailed string | RuntimeError string | NullPointerDereference

text \<open>
  \<^verbatim>\<open>INT64_MIN\<close> converted to the unsigned 64-bit type of a timestamp.
\<close>

definition INT64_MIN :: "64 word" where
  "INT64_MIN = word_of_int (- (2 ^ 63))"

subsection \<open>Storage objects\<close>

text \<open>
  Modelled from the spec: the storage layer (\<^verbatim>\<open>storage/undo_record.h\<close>,
  \<^verbatim>\<open>storage/data_table.h\<close>, \<^verbatim>\<open>storage/record_buffer.h\<close>, the log records) is declared
  outside the sources at hand. The records below carry what the manager reads and writes
  there, after the data model and the interfaces the specification lists.

  The bytes of an attribute, read as a \<^verbatim>\<open>VarlenEntry\<close> where the layout says the column
  is variable-length.
\<close>

record VarlenEntry =
  Content :: byte_ptr
  IsGathered :: bool

text \<open>
  Modelled from the spec: a projection (delta) is a list of columns, each a column id and
  a value that may be null.
\<close>

type_synonym ProjectedRow = "(col_id_t \<times> VarlenEntry option) list"

definition NumColumns :: "ProjectedRow \<Rightarrow> nat" where
  "NumColumns row = length row"

definition ColumnIds :: "ProjectedRow \<Rightarrow> nat \<Rightarrow> col_id_t" where
  "ColumnIds row i = fst (row ! i)"

definition RowAccessWithNullCheck :: "ProjectedRow \<Rightarrow> nat \<Rightarrow> VarlenEntry option" where
  "RowAccessWithNullCheck row i = snd (row ! i)"

text \<open>
  Modelled from the spec: the kind of a delta record. The switch in \<^verbatim>\<open>Rollback\<close> has a
  \<^verbatim>\<open>default\<close> branch, so a value of the enumeration's underlying integer that is none of
  the three named kinds is kept as \<open>OTHER_DELTA\<close>.
\<close>

datatype DeltaRecordType = UPDATE | INSERT | DELETE | OTHER_DELTA nat

record UndoRecord =
  Timestamp :: timestamp_t
  Table :: "table_ref option"
  Slot :: TupleSlot
  Type :: DeltaRecordType
  Delta :: ProjectedRow
  Next :: "undo_ref option"

datatype LogRecordType = REDO | COMMIT | OTHER_LOG nat

record RedoRecord =
  GetTupleSlot :: TupleSlot
  GetDataTable :: table_ref
  RedoDelta :: ProjectedRow

record CommitRecord =
  cr_txn_begin :: timestamp_t
  cr_commit_time :: timestamp_t
  cr_callback :: callback_fn
  cr_callback_arg :: callback_arg
  cr_is_read_only :: bool
  cr_txn :: txn_ref

datatype LogRecord = RedoLog RedoRecord | CommitLog CommitRecord | OtherLog nat

fun RecordType :: "LogRecord \<Rightarrow> LogRecordType" where
  "RecordType (RedoLog r) = REDO"
| "RecordType (CommitLog c) = COMMIT"
| "RecordType (OtherLog n) = OTHER_LOG n"

text \<open>
  Modelled from the spec: the redo buffer is an append-only log that is finalized either
  in publish mode (\<^verbatim>\<open>Finalize(true)\<close>) or in discard mode (\<^verbatim>\<open>Finalize(false)\<close>); the
  field \<open>finalized\<close> keeps the mode of the last call, \<open>None\<close> before any call.
\<close>

record RedoBuffer =
  records :: "LogRecord list"
  finalized :: "bool option"

definition RedoBuffer_new :: RedoBuffer where
  "RedoBuffer_new = \<lparr>records = [], finalized = None\<rparr>"

definition NewEntry :: "RedoBuffer \<Rightarrow> LogRecord \<Rightarrow> RedoBuffer" where
  "NewEntry buf r = buf\<lparr>records := records buf @ [r]\<rparr>"

definition RedoLastRecord :: "RedoBuffer \<Rightarrow> LogRecord option" where
  "RedoLastRecord buf = (if records buf = [] then None else Some (last (records buf)))"

definition Finalize :: "RedoBuffer \<Rightarrow> bool \<Rightarrow> RedoBuffer" where
  "Finalize buf committed = buf\<lparr>finalized := Some committed\<rparr>"

text \<open>
  Modelled from the spec: the undo buffer is an ordered sequence of undo records,
  iterable newest-first. It is the list of the records' addresses in iteration order, so
  the last record reserved is its head.
\<close>

type_synonym UndoBuffer = "undo_ref list"

definition UndoEmpty :: "UndoBuffer \<Rightarrow> bool" where
  "UndoEmpty buf = (buf = [])"

definition UndoLastRecord :: "UndoBuffer \<Rightarrow> undo_ref option" where
  "UndoLastRecord buf = (case buf of [] \<Rightarrow> None | r # rs \<Rightarrow> Some r)"

text \<open>
  Modelled from the spec: a data table with its tuple access strategy and block layout:
  which columns are variable-length, the number of columns, the attribute bytes and the
  null bitmap of every slot, the allocation bitmap, and the head of every slot's version
  chain.
\<close>

record DataTable =
  IsVarlen :: "col_id_t \<Rightarrow> bool"
  LayoutNumColumns :: nat
  attrs :: "TupleSlot \<Rightarrow> col_id_t \<Rightarrow> VarlenEntry"
  not_null :: "TupleSlot \<Rightarrow> col_id_t \<Rightarrow> bool"
  allocated :: "TupleSlot \<Rightarrow> bool"
  version_ptr :: "TupleSlot \<Rightarrow> undo_ref option"

definition AccessWithNullCheck :: "DataTable \<Rightarrow> TupleSlot \<Rightarrow> col_id_t \<Rightarrow> VarlenEntry option" where
  "AccessWithNullCheck t slot col = (if not_null t slot col then Some (attrs t slot col) else None)"

definition SetNull :: "DataTable \<Rightarrow> TupleSlot \<Rightarrow> col_id_t \<Rightarrow> DataTable" where
  "SetNull t slot col = t\<lparr>not_null := (not_null t)(slot := (not_null t slot)(col := False))\<rparr>"

definition SetNotNull :: "DataTable \<Rightarrow> TupleSlot \<Rightarrow> col_id_t \<Rightarrow> DataTable" where
  "SetNotNull t slot col = t\<lparr>not_null := (not_null t)(slot := (not_null t slot)(col := True))\<rparr>"

definition Deallocate :: "DataTable \<Rightarrow> TupleSlot \<Rightarrow> DataTable" where
  "Deallocate t slot = t\<lparr>allocated := (allocated t)(slot := False)\<rparr>"

definition AtomicallyReadVersionPtr :: "DataTable \<Rightarrow> TupleSlot \<Rightarrow> undo_ref option" where
  "AtomicallyReadVersionPtr t slot = version_ptr t slot"

definition AtomicallyWriteVersionPtr :: "DataTable \<Rightarrow> TupleSlot \<Rightarrow> undo_ref option \<Rightarrow> DataTable" where
  "AtomicallyWriteVersionPtr t slot p = t\<lparr>version_ptr := (version_ptr t)(slot := p)\<rparr>"

text \<open>
  Modelled from the spec: \<^verbatim>\<open>StorageUtil::CopyAttrFromProjection\<close> copies the before-image
  value of column \<open>i\<close> of the projection into the slot; a null value makes the attribute
  null.
\<close>

definition CopyAttrFromProjection :: "DataTable \<Rightarrow> TupleSlot \<Rightarrow> ProjectedRow \<Rightarrow> nat \<Rightarrow> DataTable" where
  "CopyAttrFromProjection t slot row i =
     (let col_id = ColumnIds row i in
      case RowAccessWithNullCheck row i of
        None \<Rightarrow> SetNull t slot col_id
      | Some v \<Rightarrow> (SetNotNull t slot col_id)\<lparr>attrs := (attrs t)(slot := (attrs t slot)(col_id := v))\<rparr>)"

subsection \<open>Transaction and thread contexts\<close>

text \<open>
  Modelled from the spec: the attributes of a transaction context
  (\<^verbatim>\<open>transaction/transaction_context.h\<close>) and of a thread context, whose declarations are
  outside the sources at hand.
\<close>

record TransactionContext =
  start_time :: timestamp_t
  txn_id :: timestamp_t
  undo_buffer :: UndoBuffer
  redo_buffer :: RedoBuffer
  loose_ptrs :: "byte_ptr list"
  log_processed :: bool
  thread_context :: "thread_ref option"
  txn_buffer_pool :: nat
  txn_log_manager :: "nat option"

definition TransactionContext_new ::
  "timestamp_t \<Rightarrow> timestamp_t \<Rightarrow> nat \<Rightarrow> nat option \<Rightarrow> thread_ref option \<Rightarrow> TransactionContext" where
  "TransactionContext_new start txnid pool lm tc =
     \<lparr>start_time = start, txn_id = txnid, undo_buffer = [], redo_buffer = RedoBuffer_new,
      loose_ptrs = [], log_processed = False, thread_context = tc,
      txn_buffer_pool = pool, txn_log_manager = lm\<rparr>"

record TransactionThreadContext =
  worker_id :: worker_id_t
  tc_curr_running_txns :: "timestamp_t list"

definition TransactionThreadContext_new :: "worker_id_t \<Rightarrow> TransactionThreadContext" where
  "TransactionThreadContext_new w = \<lparr>worker_id = w, tc_curr_running_txns = []\<rparr>"

subsection \<open>The manager and the system around it\<close>

text \<open>
  The fields of \<^verbatim>\<open>class TransactionManager\<close>. A \<^verbatim>\<open>std::unordered_set\<close> is the list of
  its elements in iteration order (the order is never observed: only membership and the
  minimum are). The commit latch and the spin latches have no field: the operations run
  one after the other.

  Modelled from the spec: \<^verbatim>\<open>TransactionQueue\<close> is declared outside the sources at hand
  (\<^verbatim>\<open>transaction/transaction_defs.h\<close>). The specification calls \<^verbatim>\<open>completed_txns\<close> a list
  of contexts, and the manager uses \<^verbatim>\<open>push_front\<close>, \<^verbatim>\<open>empty\<close> and move construction on
  it: it is a list whose head is the front, read from the front.
\<close>

record TransactionManager =
  buffer_pool :: nat
  time :: timestamp_t
  curr_running_txns :: "timestamp_t list"
  curr_running_workers :: "thread_ref list"
  gc_enabled :: bool
  completed_txns :: "txn_ref list"
  log_manager :: "nat option"

text \<open>
  \<^verbatim>\<open>LOGGING_DISABLED\<close> is the null log manager: the constructor takes the log manager
  \<^verbatim>\<open>or nullptr if logging is turned off\<close>.
\<close>

definition LOGGING_DISABLED :: "nat option" where
  "LOGGING_DISABLED = None"

definition TransactionManager_new :: "nat \<Rightarrow> bool \<Rightarrow> nat option \<Rightarrow> TransactionManager" where
  "TransactionManager_new pool gc lm =
     \<lparr>buffer_pool = pool, time = 0, curr_running_txns = [], curr_running_workers = [],
      gc_enabled = gc, completed_txns = [], log_manager = lm\<rparr>"

text \<open>
  The manager together with the objects its pointers reach. \<open>txn_alloc\<close> and
  \<open>thread_alloc\<close> are the next free addresses handed out by \<^verbatim>\<open>new\<close>;
  \<open>callbacks_invoked\<close> lists the commit callbacks called so far, with their arguments.
  \<open>NDEBUG\<close> says whether \<^verbatim>\<open>TERRIER_ASSERT\<close> is compiled out; the constants
  \<^verbatim>\<open>VERSION_POINTER_COLUMN_ID\<close> and \<^verbatim>\<open>NUM_RESERVED_COLUMNS\<close> are declared outside the
  sources at hand and are carried as parameters.
\<close>

record system =
  mgr :: TransactionManager
  threads :: "thread_ref \<Rightarrow> TransactionThreadContext"
  txns :: "txn_ref \<Rightarrow> TransactionContext"
  undo_records :: "undo_ref \<Rightarrow> UndoRecord"
  tables :: "table_ref \<Rightarrow> DataTable"
  callbacks_invoked :: "(callback_fn \<times> callback_arg) list"
  txn_alloc :: txn_ref
  thread_alloc :: thread_ref
  NDEBUG :: bool
  VERSION_POINTER_COLUMN_ID :: col_id_t
  NUM_RESERVED_COLUMNS :: nat

text \<open>
  \<^verbatim>\<open>TERRIER_ASSERT(cond, msg)\<close>: nothing when assertions are compiled out or the condition
  holds, the failure otherwise. The assertions that close \<^verbatim>\<open>BeginTransaction\<close>, \<^verbatim>\<open>Commit\<close>
  and \<^verbatim>\<open>Abort\<close> name the \<^verbatim>\<open>ret\<close> of the branch that has just run; they check the value
  that branch computed.
\<close>

definition TERRIER_ASSERT :: "system \<Rightarrow> bool \<Rightarrow> string \<Rightarrow> error option" where
  "TERRIER_ASSERT st cond msg = (if NDEBUG st \<or> cond then None else Some (AssertionFailed msg))"

subsection \<open>Unordered sets\<close>

text \<open>
  \<^verbatim>\<open>emplace\<close> returns the set and whether the element was inserted (it is not when it is
  already there); \<^verbatim>\<open>erase\<close> returns the set and the number of elements erased.
\<close>

definition emplace :: "'a \<Rightarrow> 'a list \<Rightarrow> 'a list \<times> bool" where
  "emplace x xs = (if x \<in> set xs then (xs, False) else (x # xs, True))"

definition erase :: "'a \<Rightarrow> 'a list \<Rightarrow> 'a list \<times> nat" where
  "erase x xs = (removeAll x xs, if x \<in> set xs then 1 else 0)"

text \<open>
  \<^verbatim>\<open>std::min_element\<close>: the end iterator (\<open>None\<close>) on an empty range, otherwise the first
  smallest element.
\<close>

definition min_element :: "timestamp_t list \<Rightarrow> timestamp_t option" where
  "min_element xs =
     (case xs of [] \<Rightarrow> None
      | y # ys \<Rightarrow> Some (fold (\<lambda>x smallest. if x < smallest then x else smallest) ys y))"

section \<open>Operations of the manager\<close>

text \<open>
  The update of one object of a store.
\<close>

definition upd_txn :: "system \<Rightarrow> txn_ref \<Rightarrow> (TransactionContext \<Rightarrow> TransactionContext) \<Rightarrow> system" where
  "upd_txn st txn f = st\<lparr>txns := (txns st)(txn := f (txns st txn))\<rparr>"

definition upd_thread ::
  "system \<Rightarrow> thread_ref \<Rightarrow> (TransactionThreadContext \<Rightarrow> TransactionThreadContext) \<Rightarrow> system" where
  "upd_thread st tc f = st\<lparr>threads := (threads st)(tc := f (threads st tc))\<rparr>"

definition upd_table :: "system \<Rightarrow> table_ref \<Rightarrow> (DataTable \<Rightarrow> DataTable) \<Rightarrow> system" where
  "upd_table st tb f = st\<lparr>tables := (tables st)(tb := f (tables st tb))\<rparr>"

text \<open>
  \<^verbatim>\<open>RegisterWorker\<close> allocates a thread context and inserts it into the set of workers;
  \<^verbatim>\<open>UnregisterWorker\<close> erases it from the set (the freed object stays in the store,
  unused). \<^verbatim>\<open>GetTimestamp\<close> is \<^verbatim>\<open>time_++\<close>: it returns the counter and advances it by
  one, wrapping around at \<open>2^64\<close>; the same expression draws the start time in
  \<^verbatim>\<open>BeginTransaction\<close> and the commit time in both commit sections.
\<close>

definition RegisterWorker :: "system \<Rightarrow> worker_id_t \<Rightarrow> thread_ref \<times> system" where
  "RegisterWorker st w =
     (let thread_ctx = thread_alloc st;
          st1 = st\<lparr>threads := (threads st)(thread_ctx := TransactionThreadContext_new w),
                   thread_alloc := Suc thread_ctx\<rparr>;
          st2 = st1\<lparr>mgr := (mgr st1)\<lparr>curr_running_workers :=
                   fst (emplace thread_ctx (curr_running_workers (mgr st1)))\<rparr>\<rparr>
      in (thread_ctx, st2))"

definition UnregisterWorker :: "system \<Rightarrow> thread_ref \<Rightarrow> system" where
  "UnregisterWorker st thread =
     st\<lparr>mgr := (mgr st)\<lparr>curr_running_workers := fst (erase thread (curr_running_workers (mgr st)))\<rparr>\<rparr>"

definition GetTimestamp :: "system \<Rightarrow> timestamp_t \<times> system" where
  "GetTimestamp st = (time (mgr st), st\<lparr>mgr := (mgr st)\<lparr>time := time (mgr st) + 1\<rparr>\<rparr>)"

definition GCEnabled :: "system \<Rightarrow> bool" where
  "GCEnabled st = gc_enabled (mgr st)"

text \<open>
  \<^verbatim>\<open>BeginTransaction\<close>: draw the start time, allocate the context with
  \<^verbatim>\<open>start_time + INT64_MIN\<close> as its id, and insert the start time into the global running
  set or into the thread context's one.
\<close>

definition BeginTransaction :: "system \<Rightarrow> thread_ref option \<Rightarrow> error + (txn_ref \<times> system)" where
  "BeginTransaction st thread_ctx =
     (let (start, st1) = GetTimestamp st;
          result = txn_alloc st1;
          st2 = st1\<lparr>txns := (txns st1)(result :=
                      TransactionContext_new start (start + INT64_MIN) (buffer_pool (mgr st1))
                        (log_manager (mgr st1)) thread_ctx),
                   txn_alloc := Suc result\<rparr>;
          (st3, ret) =
            (case thread_ctx of
               None \<Rightarrow>
                 (let (s, inserted) = emplace (start_time (txns st2 result)) (curr_running_txns (mgr st2))
                  in (st2\<lparr>mgr := (mgr st2)\<lparr>curr_running_txns := s\<rparr>\<rparr>, inserted))
             | Some tc \<Rightarrow>
                 (let (s, inserted) =
                        emplace (start_time (txns st2 result)) (tc_curr_running_txns (threads st2 tc))
                  in (upd_thread st2 tc (\<lambda>c. c\<lparr>tc_curr_running_txns := s\<rparr>), inserted)))
      in case TERRIER_ASSERT st3 ret ''commit start time should be globally unique'' of
           Some e \<Rightarrow> Inl e
         | None \<Rightarrow> Inr (result, st3))"

text \<open>
  \<^verbatim>\<open>LogCommit\<close>: store the commit time into the transaction's id; with logging enabled
  append the commit record to the redo buffer, otherwise set \<^verbatim>\<open>log_processed_\<close> and call
  the callback; then finalize the redo buffer with \<^verbatim>\<open>true\<close>.
\<close>

definition LogCommit ::
  "system \<Rightarrow> txn_ref \<Rightarrow> timestamp_t \<Rightarrow> callback_fn \<Rightarrow> callback_arg \<Rightarrow> system" where
  "LogCommit st txn commit_time callback cb_arg =
     (let st1 = upd_txn st txn (\<lambda>T. T\<lparr>txn_id := commit_time\<rparr>);
          st2 =
            (if log_manager (mgr st1) \<noteq> LOGGING_DISABLED then
               (let is_read_only = UndoEmpty (undo_buffer (txns st1 txn));
                    commit_record = CommitLog
                      \<lparr>cr_txn_begin = start_time (txns st1 txn), cr_commit_time = commit_time,
                       cr_callback = callback, cr_callback_arg = cb_arg,
                       cr_is_read_only = is_read_only, cr_txn = txn\<rparr>
                in upd_txn st1 txn (\<lambda>T. T\<lparr>redo_buffer := NewEntry (redo_buffer T) commit_record\<rparr>))
             else
               (let st' = upd_txn st1 txn (\<lambda>T. T\<lparr>log_processed := True\<rparr>)
                in st'\<lparr>callbacks_invoked := callbacks_invoked st' @ [(callback, cb_arg)]\<rparr>))
      in upd_txn st2 txn (\<lambda>T. T\<lparr>redo_buffer := Finalize (redo_buffer T) True\<rparr>))"

definition ReadOnlyCommitCriticalSection ::
  "system \<Rightarrow> txn_ref \<Rightarrow> callback_fn \<Rightarrow> callback_arg \<Rightarrow> timestamp_t \<times> system" where
  "ReadOnlyCommitCriticalSection st txn callback cb_arg =
     (let (commit_time, st1) = GetTimestamp st
      in (commit_time, LogCommit st1 txn commit_time callback cb_arg))"

text \<open>
  The loop \<^verbatim>\<open>for (auto &it : txn->undo_buffer_) it.Timestamp().store(commit_time)\<close>.
\<close>

definition store_Timestamp :: "timestamp_t \<Rightarrow> undo_ref \<Rightarrow> system \<Rightarrow> system" where
  "store_Timestamp commit_time it st =
     st\<lparr>undo_records := (undo_records st)(it := (undo_records st it)\<lparr>Timestamp := commit_time\<rparr>)\<rparr>"

definition UpdatingCommitCriticalSection ::
  "system \<Rightarrow> txn_ref \<Rightarrow> callback_fn \<Rightarrow> callback_arg \<Rightarrow> timestamp_t \<times> system" where
  "UpdatingCommitCriticalSection st txn callback cb_arg =
     (let (commit_time, st1) = GetTimestamp st;
          st2 = LogCommit st1 txn commit_time callback cb_arg
      in (commit_time, fold (store_Timestamp commit_time) (undo_buffer (txns st2 txn)) st2))"

text \<open>
  The block shared by \<^verbatim>\<open>Commit\<close> and \<^verbatim>\<open>Abort\<close> that erases the start time from the
  global running set (no thread context) or from the thread context's one; it returns
  the number of elements erased, the \<^verbatim>\<open>ret\<close> of the assertion that follows.
\<close>

definition erase_running :: "system \<Rightarrow> timestamp_t \<Rightarrow> thread_ref option \<Rightarrow> system \<times> nat" where
  "erase_running st start thread_ctx =
     (case thread_ctx of
        None \<Rightarrow>
          (let (s, ret) = erase start (curr_running_txns (mgr st))
           in (st\<lparr>mgr := (mgr st)\<lparr>curr_running_txns := s\<rparr>\<rparr>, ret))
      | Some tc \<Rightarrow>
          (let (s, ret) = erase start (tc_curr_running_txns (threads st tc))
           in (upd_thread st tc (\<lambda>c. c\<lparr>tc_curr_running_txns := s\<rparr>), ret)))"

text \<open>
  The hand-off at the end of \<^verbatim>\<open>Commit\<close> and \<^verbatim>\<open>Abort\<close>: with GC enabled the transaction
  is pushed at the front of \<^verbatim>\<open>completed_txns_\<close>.
\<close>

definition push_completed :: "system \<Rightarrow> txn_ref \<Rightarrow> system" where
  "push_completed st txn =
     (if gc_enabled (mgr st)
      then st\<lparr>mgr := (mgr st)\<lparr>completed_txns := txn # completed_txns (mgr st)\<rparr>\<rparr>
      else st)"

definition Commit ::
  "system \<Rightarrow> txn_ref \<Rightarrow> callback_fn \<Rightarrow> callback_arg \<Rightarrow> error + (timestamp_t \<times> system)" where
  "Commit st txn callback cb_arg =
     (let (result, st1) =
            (if UndoEmpty (undo_buffer (txns st txn))
             then ReadOnlyCommitCriticalSection st txn callback cb_arg
             else UpdatingCommitCriticalSection st txn callback cb_arg);
          (st2, ret) = erase_running st1 (start_time (txns st1 txn)) (thread_context (txns st1 txn))
      in case TERRIER_ASSERT st2 (ret = 1)
                ''Committed transaction did not exist in global transactions table'' of
           Some e \<Rightarrow> Inl e
         | None \<Rightarrow> Inr (result, push_completed st2 txn))"

text \<open>
  \<^verbatim>\<open>DeallocateColumnUpdateIfVarlen\<close> and \<^verbatim>\<open>DeallocateInsertedTupleIfVarlen\<close>: push the
  content pointer of the slot's current variable-length values onto \<^verbatim>\<open>loose_ptrs_\<close>.
  \<open>push_varlen\<close> is the body they share with \<^verbatim>\<open>GCLastUpdateOnAbort\<close>: a null value is
  skipped, a non-null one is asserted not to be gathered and its content pointer is
  pushed. The loop counters are 16-bit in the source and stay below the number of
  columns, so they are natural numbers here.
\<close>

definition push_varlen ::
  "system \<Rightarrow> txn_ref \<Rightarrow> VarlenEntry option \<Rightarrow> error + system" where
  "push_varlen st txn varlen =
     (case varlen of
        None \<Rightarrow> Inr st
      | Some v \<Rightarrow>
          (case TERRIER_ASSERT st (\<not> IsGathered v) ''Fresh updates cannot be gathered already'' of
             Some e \<Rightarrow> Inl e
           | None \<Rightarrow> Inr (upd_txn st txn (\<lambda>T. T\<lparr>loose_ptrs := loose_ptrs T @ [Content v]\<rparr>))))"

definition DeallocateColumnUpdateIfVarlen ::
  "system \<Rightarrow> txn_ref \<Rightarrow> undo_ref \<Rightarrow> nat \<Rightarrow> table_ref \<Rightarrow> error + system" where
  "DeallocateColumnUpdateIfVarlen st txn undo projection_list_index accessor =
     (let col_id = ColumnIds (Delta (undo_records st undo)) projection_list_index in
      if IsVarlen (tables st accessor) col_id
      then push_varlen st txn
             (AccessWithNullCheck (tables st accessor) (Slot (undo_records st undo)) col_id)
      else Inr st)"

fun DeallocateInserted_loop ::
  "txn_ref \<Rightarrow> undo_ref \<Rightarrow> table_ref \<Rightarrow> nat list \<Rightarrow> system \<Rightarrow> error + system" where
  "DeallocateInserted_loop txn undo accessor [] st = Inr st"
| "DeallocateInserted_loop txn undo accessor (i # is) st =
     (let col_id = i in
      case (if IsVarlen (tables st accessor) col_id
            then push_varlen st txn
                   (AccessWithNullCheck (tables st accessor) (Slot (undo_records st undo)) col_id)
            else Inr st) of
        Inl e \<Rightarrow> Inl e
      | Inr st1 \<Rightarrow> DeallocateInserted_loop txn undo accessor is st1)"

definition DeallocateInsertedTupleIfVarlen ::
  "system \<Rightarrow> txn_ref \<Rightarrow> undo_ref \<Rightarrow> table_ref \<Rightarrow> error + system" where
  "DeallocateInsertedTupleIfVarlen st txn undo accessor =
     DeallocateInserted_loop txn undo accessor
       [NUM_RESERVED_COLUMNS st ..< LayoutNumColumns (tables st accessor)] st"

text \<open>
  \<^verbatim>\<open>Rollback\<close>. The record is given by its address. A record whose table is null is
  skipped. Otherwise the head of the slot's version chain is read, asserted to carry the
  transaction's id, and undone according to its kind; an unknown kind throws. At the end
  the head is unlinked from the chain.
\<close>

fun Rollback_update_loop ::
  "txn_ref \<Rightarrow> undo_ref \<Rightarrow> table_ref \<Rightarrow> TupleSlot \<Rightarrow> nat list \<Rightarrow> system \<Rightarrow> error + system" where
  "Rollback_update_loop txn vp table slot [] st = Inr st"
| "Rollback_update_loop txn vp table slot (i # is) st =
     (case DeallocateColumnUpdateIfVarlen st txn vp i table of
        Inl e \<Rightarrow> Inl e
      | Inr st1 \<Rightarrow>
          Rollback_update_loop txn vp table slot is
            (upd_table st1 table
               (\<lambda>t. CopyAttrFromProjection t slot (Delta (undo_records st1 vp)) i)))"

definition Rollback :: "system \<Rightarrow> txn_ref \<Rightarrow> undo_ref \<Rightarrow> error + system" where
  "Rollback st txn record =
     (case Table (undo_records st record) of
        None \<Rightarrow> Inr st
      | Some table \<Rightarrow>
          (let slot = Slot (undo_records st record);
               version_ptr = AtomicallyReadVersionPtr (tables st table) slot
           in case TERRIER_ASSERT st
                     (case version_ptr of None \<Rightarrow> False
                      | Some vp \<Rightarrow> Timestamp (undo_records st vp) = txn_id (txns st txn))
                     ''Attempting to rollback on a TupleSlot where this txn does not hold the write lock!'' of
                Some e \<Rightarrow> Inl e
              | None \<Rightarrow>
                  (case version_ptr of
                     None \<Rightarrow> Inl NullPointerDereference
                   | Some vp \<Rightarrow>
                       (case (case Type (undo_records st vp) of
                                UPDATE \<Rightarrow>
                                  Rollback_update_loop txn vp table slot
                                    [0 ..< NumColumns (Delta (undo_records st vp))] st
                              | INSERT \<Rightarrow>
                                  (case DeallocateInsertedTupleIfVarlen st txn vp table of
                                     Inl e \<Rightarrow> Inl e
                                   | Inr st1 \<Rightarrow>
                                       Inr (upd_table st1 table
                                              (\<lambda>t. Deallocate
                                                     (SetNull t slot (VERSION_POINTER_COLUMN_ID st1)) slot)))
                              | DELETE \<Rightarrow>
                                  Inr (upd_table st table
                                         (\<lambda>t. SetNotNull t slot (VERSION_POINTER_COLUMN_ID st)))
                              | OTHER_DELTA n \<Rightarrow> Inl (RuntimeError ''unexpected delta record type'')) of
                          Inl e \<Rightarrow> Inl e
                        | Inr st2 \<Rightarrow>
                            Inr (upd_table st2 table
                                   (\<lambda>t. AtomicallyWriteVersionPtr t slot (Next (undo_records st2 vp))))))))"

text \<open>
  \<^verbatim>\<open>GCLastUpdateOnAbort\<close>: when the last redo record is a \<^verbatim>\<open>REDO\<close> and the last undo
  record was never installed (its table is null), the content pointers of the non-null
  variable-length columns of the redo's delta go onto \<^verbatim>\<open>loose_ptrs_\<close>.
\<close>

fun GCLastUpdate_loop ::
  "txn_ref \<Rightarrow> RedoRecord \<Rightarrow> DataTable \<Rightarrow> nat list \<Rightarrow> system \<Rightarrow> error + system" where
  "GCLastUpdate_loop txn redo layout [] st = Inr st"
| "GCLastUpdate_loop txn redo layout (i # is) st =
     (let col_id = ColumnIds (RedoDelta redo) i in
      case (if IsVarlen layout col_id
            then push_varlen st txn (RowAccessWithNullCheck (RedoDelta redo) i)
            else Inr st) of
        Inl e \<Rightarrow> Inl e
      | Inr st1 \<Rightarrow> GCLastUpdate_loop txn redo layout is st1)"

definition GCLastUpdateOnAbort :: "system \<Rightarrow> txn_ref \<Rightarrow> error + system" where
  "GCLastUpdateOnAbort st txn =
     (let last_log_record = RedoLastRecord (redo_buffer (txns st txn));
          last_undo_record = UndoLastRecord (undo_buffer (txns st txn))
      in case last_log_record of
           None \<Rightarrow> Inr st
         | Some (CommitLog c) \<Rightarrow> Inr st
         | Some (OtherLog n) \<Rightarrow> Inr st
         | Some (RedoLog redo) \<Rightarrow>
             (case last_undo_record of
                None \<Rightarrow> Inl NullPointerDereference
              | Some u \<Rightarrow>
                  (case TERRIER_ASSERT st (GetTupleSlot redo = Slot (undo_records st u))
                          ''Last undo record and redo record must correspond to each other'' of
                     Some e \<Rightarrow> Inl e
                   | None \<Rightarrow>
                       if Table (undo_records st u) \<noteq> None then Inr st
                       else GCLastUpdate_loop txn redo (tables st (GetDataTable redo))
                              [0 ..< NumColumns (RedoDelta redo)] st)))"

text \<open>
  \<^verbatim>\<open>Abort\<close>: roll back every undo record, reclaim the last update if it was not
  installed, finalize the redo buffer with \<^verbatim>\<open>false\<close>, and leave the running set.
\<close>

fun Abort_rollback_loop :: "txn_ref \<Rightarrow> undo_ref list \<Rightarrow> system \<Rightarrow> error + system" where
  "Abort_rollback_loop txn [] st = Inr st"
| "Abort_rollback_loop txn (it # its) st =
     (case Rollback st txn it of
        Inl e \<Rightarrow> Inl e
      | Inr st1 \<Rightarrow> Abort_rollback_loop txn its st1)"

definition Abort :: "system \<Rightarrow> txn_ref \<Rightarrow> error + system" where
  "Abort st txn =
     (case Abort_rollback_loop txn (undo_buffer (txns st txn)) st of
        Inl e \<Rightarrow> Inl e
      | Inr st1 \<Rightarrow>
          (case GCLastUpdateOnAbort st1 txn of
             Inl e \<Rightarrow> Inl e
           | Inr st2 \<Rightarrow>
               (let st3 = upd_txn st2 txn (\<lambda>T. T\<lparr>redo_buffer := Finalize (redo_buffer T) False\<rparr>);
                    st4 = upd_txn st3 txn (\<lambda>T. T\<lparr>log_processed := True\<rparr>);
                    (st5, ret) = erase_running st4 (start_time (txns st4 txn))
                                   (thread_context (txns st4 txn))
                in case TERRIER_ASSERT st5 (ret = 1)
                          ''Aborted transaction did not exist in global transactions table'' of
                     Some e \<Rightarrow> Inl e
                   | None \<Rightarrow> Inr (push_completed st5 txn))))"

text \<open>
  \<^verbatim>\<open>OldestTransactionStartTime\<close>: start from the counter, fold in the minimum of every
  registered thread context's running set, then the minimum of the global running set.
\<close>

definition fold_oldest :: "timestamp_t list \<Rightarrow> timestamp_t \<Rightarrow> timestamp_t" where
  "fold_oldest running oldest_timestamp =
     (case min_element running of
        None \<Rightarrow> oldest_timestamp
      | Some oldest_txn \<Rightarrow> min oldest_txn oldest_timestamp)"

definition OldestTransactionStartTime :: "system \<Rightarrow> timestamp_t" where
  "OldestTransactionStartTime st =
     (let oldest_timestamp = time (mgr st);
          oldest_timestamp =
            fold (\<lambda>thread_ctx oldest. fold_oldest (tc_curr_running_txns (threads st thread_ctx)) oldest)
              (curr_running_workers (mgr st)) oldest_timestamp
      in fold_oldest (curr_running_txns (mgr st)) oldest_timestamp)"

text \<open>
  \<^verbatim>\<open>CompletedTransactionsForGC\<close>: move the queue out, leaving the manager's one empty.
\<close>

definition CompletedTransactionsForGC :: "system \<Rightarrow> error + (txn_ref list \<times> system)" where
  "CompletedTransactionsForGC st =
     (let hand_to_gc = completed_txns (mgr st);
          st1 = st\<lparr>mgr := (mgr st)\<lparr>completed_txns := []\<rparr>\<rparr>
      in case TERRIER_ASSERT st1 (completed_txns (mgr st1) = [])
                ''TransactionManager's queue should now be empty.'' of
           Some e \<Rightarrow> Inl e
         | None \<Rightarrow> Inr (hand_to_gc, st1))"

section \<open>Runs of the manager and auxiliary notions\<close>

text \<open>
  The running set a transaction belongs to: the manager's global one when it was begun
  with no thread context, its thread context's one otherwise.
\<close>

definition running_set_of :: "system \<Rightarrow> thread_ref option \<Rightarrow> timestamp_t list" where
  "running_set_of st tc =
     (case tc of None \<Rightarrow> curr_running_txns (mgr st)
      | Some c \<Rightarrow> tc_curr_running_txns (threads st c))"

text \<open>
  What the storage layer leaves alone when a transaction reads and writes tuples between
  its begin and its end: the manager, the thread contexts, the allocator, and every
  transaction's start time and thread context. It may change undo and redo buffers,
  undo records, tables and loose pointers.
\<close>

definition keeps_bookkeeping :: "system \<Rightarrow> system \<Rightarrow> bool" where
  "keeps_bookkeeping st st' \<longleftrightarrow>
     mgr st' = mgr st \<and> threads st' = threads st \<and> txn_alloc st' = txn_alloc st \<and>
     NDEBUG st' = NDEBUG st \<and>
     (\<forall>t. start_time (txns st' t) = start_time (txns st t) \<and>
          thread_context (txns st' t) = thread_context (txns st t))"

text \<open>
  The footprint of \<^verbatim>\<open>Rollback\<close> and \<^verbatim>\<open>GCLastUpdateOnAbort\<close>: tables and loose pointers
  only.
\<close>

definition storage_side :: "system \<Rightarrow> system \<Rightarrow> bool" where
  "storage_side st st' \<longleftrightarrow>
     keeps_bookkeeping st st' \<and> undo_records st' = undo_records st \<and>
     callbacks_invoked st' = callbacks_invoked st \<and>
     VERSION_POINTER_COLUMN_ID st' = VERSION_POINTER_COLUMN_ID st \<and>
     NUM_RESERVED_COLUMNS st' = NUM_RESERVED_COLUMNS st \<and>
     (\<forall>t. undo_buffer (txns st' t) = undo_buffer (txns st t) \<and>
          redo_buffer (txns st' t) = redo_buffer (txns st t) \<and>
          txn_id (txns st' t) = txn_id (txns st t) \<and>
          log_processed (txns st' t) = log_processed (txns st t))"

text \<open>
  A result that is not the \<^verbatim>\<open>std::runtime_error\<close> of \<^verbatim>\<open>Rollback\<close>.
\<close>

definition no_throw :: "error + 'a \<Rightarrow> bool" where
  "no_throw r \<longleftrightarrow> (\<forall>m. r \<noteq> Inl (RuntimeError m))"

text \<open>
  The state that the commit path chosen by \<^verbatim>\<open>Commit\<close> leaves, before the transaction
  is taken out of its running set.
\<close>

definition commit_section :: "system \<Rightarrow> txn_ref \<Rightarrow> callback_fn \<Rightarrow> callback_arg \<Rightarrow> system" where
  "commit_section st txn cb arg =
     snd (if UndoEmpty (undo_buffer (txns st txn))
          then ReadOnlyCommitCriticalSection st txn cb arg
          else UpdatingCommitCriticalSection st txn cb arg)"

text \<open>
  What \<^verbatim>\<open>Commit\<close> and \<^verbatim>\<open>Abort\<close> both do to the manager's bookkeeping for transaction \<open>t\<close>:
  its start time leaves the running set of its thread context (no other running set
  changes), and with GC enabled \<open>t\<close> goes to the front of the completed queue.
\<close>

definition finishes :: "system \<Rightarrow> txn_ref \<Rightarrow> system \<Rightarrow> bool" where
  "finishes st t st' \<longleftrightarrow>
     txn_alloc st' = txn_alloc st \<and> NDEBUG st' = NDEBUG st \<and>
     gc_enabled (mgr st') = gc_enabled (mgr st) \<and>
     (\<forall>u. start_time (txns st' u) = start_time (txns st u) \<and>
          thread_context (txns st' u) = thread_context (txns st u)) \<and>
     completed_txns (mgr st') =
       (if gc_enabled (mgr st) then t # completed_txns (mgr st) else completed_txns (mgr st)) \<and>
     (\<forall>tc'. running_set_of st' tc' =
        (if tc' = thread_context (txns st t)
         then removeAll (start_time (txns st t)) (running_set_of st tc')
         else running_set_of st tc'))"

text \<open>
  A client's calls, one after the other: \<^verbatim>\<open>BeginTransaction\<close>, \<^verbatim>\<open>Commit\<close>, \<^verbatim>\<open>Abort\<close> and
  \<^verbatim>\<open>GetTimestamp\<close>; the first, the second and the last are the calls that increment the
  counter. \<open>StorageOp\<close> stands for the work of the storage layer on behalf of running
  transactions between two calls of the manager.
\<close>

datatype op =
    BeginOp "thread_ref option"
  | CommitOp txn_ref callback_fn callback_arg
  | AbortOp txn_ref
  | GetTimestampOp
  | StorageOp "system \<Rightarrow> system"

text \<open>
  One call of the client, and a run of calls; a run stops at the first call that fails.
\<close>

fun step :: "op \<Rightarrow> system \<Rightarrow> error + system" where
  "step (BeginOp tc) st = (case BeginTransaction st tc of Inl e \<Rightarrow> Inl e | Inr (t, st') \<Rightarrow> Inr st')"
| "step (CommitOp t cb arg) st = (case Commit st t cb arg of Inl e \<Rightarrow> Inl e | Inr (ts, st') \<Rightarrow> Inr st')"
| "step (AbortOp t) st = Abort st t"
| "step GetTimestampOp st = Inr (snd (GetTimestamp st))"
| "step (StorageOp f) st = Inr (f st)"

fun exec :: "op list \<Rightarrow> system \<Rightarrow> error + system" where
  "exec [] st = Inr st"
| "exec (x # xs) st = (case step x st of Inl e \<Rightarrow> Inl e | Inr st' \<Rightarrow> exec xs st')"

text \<open>
  The live transactions, each with the thread context it was begun with: a transaction
  is live from the \<^verbatim>\<open>BeginTransaction\<close> that returned it until it is committed or
  aborted. \<^verbatim>\<open>BeginTransaction\<close> returns the address \<open>txn_alloc\<close> of the state it is called
  in.
\<close>

fun live_step ::
  "op \<Rightarrow> system \<Rightarrow> (txn_ref \<times> thread_ref option) list \<Rightarrow> (txn_ref \<times> thread_ref option) list" where
  "live_step (BeginOp tc) st L = (txn_alloc st, tc) # L"
| "live_step (CommitOp t cb arg) st L = filter (\<lambda>p. fst p \<noteq> t) L"
| "live_step (AbortOp t) st L = filter (\<lambda>p. fst p \<noteq> t) L"
| "live_step GetTimestampOp st L = L"
| "live_step (StorageOp f) st L = L"

fun live_after ::
  "op list \<Rightarrow> system \<Rightarrow> (txn_ref \<times> thread_ref option) list \<Rightarrow> (txn_ref \<times> thread_ref option) list" where
  "live_after [] st L = L"
| "live_after (x # xs) st L =
     (case step x st of Inl e \<Rightarrow> L | Inr st' \<Rightarrow> live_after xs st' (live_step x st L))"

text \<open>
  A storage step keeps the manager's bookkeeping in every state.
\<close>

definition storage_only :: "(system \<Rightarrow> system) \<Rightarrow> bool" where
  "storage_only f \<longleftrightarrow> (\<forall>st. keeps_bookkeeping st (f st))"

text \<open>
  The client's side of the protocol: only live transactions are committed or aborted,
  and storage steps keep the bookkeeping.
\<close>

fun op_ok :: "op \<Rightarrow> (txn_ref \<times> thread_ref option) list \<Rightarrow> bool" where
  "op_ok (BeginOp tc) L = True"
| "op_ok (CommitOp t cb arg) L = (t \<in> fst ` set L)"
| "op_ok (AbortOp t) L = (t \<in> fst ` set L)"
| "op_ok GetTimestampOp L = True"
| "op_ok (StorageOp f) L = storage_only f"

fun client_ok :: "op list \<Rightarrow> system \<Rightarrow> (txn_ref \<times> thread_ref option) list \<Rightarrow> bool" where
  "client_ok [] st L = True"
| "client_ok (x # xs) st L =
     (op_ok x L \<and> (case step x st of Inl e \<Rightarrow> True | Inr st' \<Rightarrow> client_ok xs st' (live_step x st L)))"

text \<open>
  The number of timestamps a call draws from the counter.
\<close>

fun draws_op :: "op \<Rightarrow> nat" where
  "draws_op (BeginOp tc) = 1"
| "draws_op (CommitOp t cb arg) = 1"
| "draws_op (AbortOp t) = 0"
| "draws_op GetTimestampOp = 1"
| "draws_op (StorageOp f) = 0"

definition draws :: "op list \<Rightarrow> nat" where
  "draws ops = sum_list (map draws_op ops)"

text \<open>
  A call whose storage step, if it is one, keeps the bookkeeping.
\<close>

fun storage_ok :: "op \<Rightarrow> bool" where
  "storage_ok (StorageOp f) = storage_only f"
| "storage_ok x = True"

text \<open>
  The transactions a run completes, in the order of their \<^verbatim>\<open>Commit\<close> and \<^verbatim>\<open>Abort\<close>
  calls.
\<close>

fun completed_op :: "op \<Rightarrow> txn_ref list" where
  "completed_op (CommitOp t cb arg) = [t]"
| "completed_op (AbortOp t) = [t]"
| "completed_op x = []"

definition completion_order :: "op list \<Rightarrow> txn_ref list" where
  "completion_order ops = concat (map completed_op ops)"

text \<open>
  The invariant of the running sets: every live transaction is allocated, keeps the
  thread context it was begun with, has its start time in that context's running set,
  and started before the counter's current value; every element of a running set is the
  start time of a live transaction of that set; live transactions have different start
  times.
\<close>

definition Inv :: "system \<Rightarrow> (txn_ref \<times> thread_ref option) list \<Rightarrow> bool" where
  "Inv st L \<longleftrightarrow>
     (\<forall>p \<in> set L. fst p < txn_alloc st \<and> thread_context (txns st (fst p)) = snd p \<and>
        start_time (txns st (fst p)) \<in> set (running_set_of st (snd p)) \<and>
        unat (start_time (txns st (fst p))) < unat (time (mgr st))) \<and>
     (\<forall>tc s. s \<in> set (running_set_of st tc) \<longrightarrow>
        (\<exists>p \<in> set L. snd p = tc \<and> start_time (txns st (fst p)) = s)) \<and>
     (\<forall>p \<in> set L. \<forall>q \<in> set L.
        start_time (txns st (fst p)) = start_time (txns st (fst q)) \<longrightarrow> fst p = fst q)"

text \<open>
  The system right after the manager's constructor: counter 0, nothing running, nothing
  completed. Used for the concrete runs below.
\<close>

definition fresh_system :: "bool \<Rightarrow> nat option \<Rightarrow> bool \<Rightarrow> system" where
  "fresh_system gc lm ndebug =
     \<lparr>mgr = TransactionManager_new 0 gc lm,
      threads = (\<lambda>r. TransactionThreadContext_new 0),
      txns = (\<lambda>r. TransactionContext_new 0 0 0 None None),
      undo_records = (\<lambda>r. \<lparr>Timestamp = 0, Table = None, Slot = 0, Type = UPDATE, Delta = [], Next = None\<rparr>),
      tables = (\<lambda>r. \<lparr>IsVarlen = (\<lambda>c. False), LayoutNumColumns = 1, attrs = (\<lambda>s c. \<lparr>Content = 0, IsGathered = False\<rparr>),
                      not_null = (\<lambda>s c. False), allocated = (\<lambda>s. False), version_ptr = (\<lambda>s. None)\<rparr>),
      callbacks_invoked = [], txn_alloc = 0, thread_alloc = 0, NDEBUG = ndebug,
      VERSION_POINTER_COLUMN_ID = 0, NUM_RESERVED_COLUMNS = 1\<rparr>"

text \<open>
  The system after three workers have registered: thread contexts 0, 1 and 2.
\<close>

definition example_workers :: "bool \<Rightarrow> nat option \<Rightarrow> bool \<Rightarrow> system" where
  "example_workers gc lm ndebug =
     snd (RegisterWorker (snd (RegisterWorker (snd (RegisterWorker (fresh_system gc lm ndebug) 10)) 11)) 12)"

text \<open>
  The same system once its counter has advanced to \<open>c\<close>.
\<close>

definition example_counter :: "timestamp_t \<Rightarrow> system" where
  "example_counter c =
     (example_workers True None False)\<lparr>mgr := (mgr (example_workers True None False))\<lparr>time := c\<rparr>\<rparr>"

text \<open>
  Scenario S5 of the specification: with the counter at 10, transactions begin on the
  thread contexts 1 and 2 and then one without thread context; they start at 10, 11 and
  12.
\<close>

definition example_watermark :: system where
  "example_watermark =
     projr (exec [BeginOp (Some 1), BeginOp (Some 2), BeginOp None] (example_counter 10))"

text \<open>
  A transaction at address 0, started at 0, with one undo record at address 7 for slot 4
  and one redo record whose delta has a non-null variable-length column, a null one and
  a fixed-length one. The undo record's kind and table are parameters; the head of slot
  4's version chain is the undo record.
\<close>

definition example_updating :: "nat option \<Rightarrow> DeltaRecordType \<Rightarrow> table_ref option \<Rightarrow> system" where
  "example_updating lm kind tb =
     (fresh_system True lm False)
       \<lparr>mgr := (TransactionManager_new 0 True lm)\<lparr>time := 1, curr_running_txns := [0]\<rparr>,
        txns := (\<lambda>r. (TransactionContext_new 0 INT64_MIN 0 lm None)
                  \<lparr>undo_buffer := [7],
                   redo_buffer := \<lparr>records = [RedoLog \<lparr>GetTupleSlot = 4, GetDataTable = 0,
                        RedoDelta = [(1, Some \<lparr>Content = 99, IsGathered = False\<rparr>), (2, None),
                                     (3, Some \<lparr>Content = 98, IsGathered = False\<rparr>)]\<rparr>],
                      finalized = None\<rparr>\<rparr>),
        undo_records := (\<lambda>r. \<lparr>Timestamp = INT64_MIN, Table = tb, Slot = 4, Type = kind,
                               Delta = [(1, Some \<lparr>Content = 55, IsGathered = False\<rparr>)], Next = None\<rparr>),
        tables := (\<lambda>r. \<lparr>IsVarlen = (\<lambda>c. c = 1 \<or> c = 2), LayoutNumColumns = 4,
                        attrs = (\<lambda>s c. \<lparr>Content = 99, IsGathered = False\<rparr>),
                        not_null = (\<lambda>s c. True), allocated = (\<lambda>s. True),
                        version_ptr = (\<lambda>s. if s = 4 then Some 7 else None)\<rparr>),
        txn_alloc := 1\<rparr>"

text \<open>
  The condition of the assertion in \<^verbatim>\<open>Rollback\<close>: when the record's table is not null,
  the slot's version chain has a head and the head carries the transaction's id.
\<close>

definition write_lock_held :: "system \<Rightarrow> txn_ref \<Rightarrow> undo_ref \<Rightarrow> bool" where
  "write_lock_held st txn record =
     (case Table (undo_records st record) of
        None \<Rightarrow> True
      | Some table \<Rightarrow>
          (case AtomicallyReadVersionPtr (tables st table) (Slot (undo_records st record)) of
             None \<Rightarrow> False
           | Some vp \<Rightarrow> Timestamp (undo_records st vp) = txn_id (txns st txn)))"

text \<open>
  The content pointer that one column of the redo delta contributes: that of a non-null
  value of a variable-length column.
\<close>

definition col_varlen :: "DataTable \<Rightarrow> col_id_t \<times> VarlenEntry option \<Rightarrow> byte_ptr list" where
  "col_varlen layout col =
     (if IsVarlen layout (fst col)
      then (case snd col of None \<Rightarrow> [] | Some varlen \<Rightarrow> [Content varlen])
      else [])"

definition redo_varlens :: "DataTable \<Rightarrow> ProjectedRow \<Rightarrow> byte_ptr list" where
  "redo_varlens layout row = concat (map (col_varlen layout) row)"

text \<open>
  The condition of the assertion in the loop of \<^verbatim>\<open>GCLastUpdateOnAbort\<close>: a non-null
  value of a variable-length column is not gathered.
\<close>

definition col_fresh :: "DataTable \<Rightarrow> col_id_t \<times> VarlenEntry option \<Rightarrow> bool" where
  "col_fresh layout col =
     (case snd col of None \<Rightarrow> True | Some varlen \<Rightarrow> \<not> (IsVarlen layout (fst col) \<and> IsGathered varlen))"

text \<open>
  What \<^verbatim>\<open>GCLastUpdateOnAbort\<close> relies on when the last redo record is a \<^verbatim>\<open>REDO\<close>: there
  is a last undo record to compare it with and, where assertions are compiled in, the
  two name the same slot and the values to reclaim are not gathered.
\<close>

definition last_update_checks :: "system \<Rightarrow> txn_ref \<Rightarrow> bool" where
  "last_update_checks st txn =
     (case RedoLastRecord (redo_buffer (txns st txn)) of
        Some (RedoLog redo) \<Rightarrow>
          (case UndoLastRecord (undo_buffer (txns st txn)) of
             None \<Rightarrow> False
           | Some u \<Rightarrow>
               NDEBUG st \<or>
               (GetTupleSlot redo = Slot (undo_records st u) \<and>
                (Table (undo_records st u) \<noteq> None \<or>
                 list_all (col_fresh (tables st (GetDataTable redo))) (RedoDelta redo))))
      | _ \<Rightarrow> True)"

text \<open>
  The last redo record exists and is a \<^verbatim>\<open>REDO\<close>, and the last undo record's table is
  null.
\<close>

definition last_update_uninstalled :: "system \<Rightarrow> txn_ref \<Rightarrow> bool" where
  "last_update_uninstalled st txn =
     (case RedoLastRecord (redo_buffer (txns st txn)) of
        Some (RedoLog redo) \<Rightarrow>
          (case UndoLastRecord (undo_buffer (txns st txn)) of
             None \<Rightarrow> False
           | Some u \<Rightarrow> Table (undo_records st u) = None)
      | _ \<Rightarrow> False)"

text \<open>
  Concrete runs: a transaction that writes and commits while another one begins and
  commits; a transaction begun when the counter is at its last value; two transactions
  completed one after the other; three transactions of which one aborts.
\<close>

definition example_ops :: "op list" where
  "example_ops =
     [StorageOp (\<lambda>st. upd_txn st 0 (\<lambda>T. T\<lparr>undo_buffer := [7]\<rparr>)), BeginOp (Some 1), CommitOp 1 0 0]"

definition example_begun :: system where
  "example_begun = snd (projr (BeginTransaction (example_counter 5) None))"

definition example_before_commit :: system where
  "example_before_commit = projr (exec example_ops example_begun)"

definition example_wrapped :: system where
  "example_wrapped = snd (projr (BeginTransaction (example_counter (- 1)) None))"

definition example_completions :: "op list" where
  "example_completions = [BeginOp None, BeginOp None, CommitOp 0 3 4, AbortOp 1]"

definition example_completed :: system where
  "example_completed = projr (exec example_completions (fresh_system True None False))"

definition example_live_ops :: "op list" where
  "example_live_ops = [BeginOp None, BeginOp (Some 1), BeginOp (Some 2), AbortOp 0]"

definition example_live :: system where
  "example_live = projr (exec example_live_ops (example_workers True None False))"

text \<open>
  A run that wraps the counter around, in a system with three registered workers: one
  transaction stays live while \<open>2^64 - 1\<close> others begin and abort, then a transaction
  begins on thread context 0.
\<close>

fun begin_abort_pairs :: "txn_ref \<Rightarrow> nat \<Rightarrow> op list \<Rightarrow> op list" where
  "begin_abort_pairs a 0 rest = rest"
| "begin_abort_pairs a (Suc n) rest = BeginOp None # AbortOp a # begin_abort_pairs (Suc a) n rest"

definition wraparound_ops :: "op list" where
  "wraparound_ops = BeginOp None # begin_abort_pairs 1 (2 ^ 64 - 1) [BeginOp (Some 0)]"

definition example_after_wraparound :: system where
  "example_after_wraparound = projr (exec wraparound_ops (example_workers False None False))"

text \<open>
  What \<open>n\<close> rounds of begin and abort change: the counter and the allocator advance by
  \<open>n\<close>; the running sets and the transactions allocated before stay as they were.
\<close>

definition pair_related :: "nat \<Rightarrow> system \<Rightarrow> system \<Rightarrow> bool" where
  "pair_related n st st' \<longleftrightarrow>
     time (mgr st') = time (mgr st) + of_nat n \<and> txn_alloc st' = txn_alloc st + n \<and>
     curr_running_txns (mgr st') = curr_running_txns (mgr st) \<and> threads st' = threads st \<and>
     NDEBUG st' = NDEBUG st \<and> (\<forall>t < txn_alloc st. txns st' t = txns st t)"

text \<open>
  The timestamps a call hands out: the start time of the transaction that
  \<^verbatim>\<open>BeginTransaction\<close> returns, the commit time that \<^verbatim>\<open>Commit\<close> returns, the value that
  \<^verbatim>\<open>GetTimestamp\<close> returns. \<^verbatim>\<open>Abort\<close> and the storage layer draw none.
\<close>

fun issued_op :: "op \<Rightarrow> system \<Rightarrow> timestamp_t list" where
  "issued_op (BeginOp tc) st =
     (case BeginTransaction st tc of Inl e \<Rightarrow> [] | Inr (t, st') \<Rightarrow> [start_time (txns st' t)])"
| "issued_op (CommitOp t cb arg) st =
     (case Commit st t cb arg of Inl e \<Rightarrow> [] | Inr (ts, st') \<Rightarrow> [ts])"
| "issued_op (AbortOp t) st = []"
| "issued_op GetTimestampOp st = [fst (GetTimestamp st)]"
| "issued_op (StorageOp f) st = []"

text \<open>
  The timestamps the counter has issued along a run, oldest first.
\<close>

fun issued :: "op list \<Rightarrow> system \<Rightarrow> timestamp_t list" where
  "issued [] st = []"
| "issued (x # xs) st =
     (case step x st of Inl e \<Rightarrow> [] | Inr st' \<Rightarrow> issued_op x st @ issued xs st')"

text \<open>
  A run from the manager's initial counter value 0: a transaction begins, a timestamp is
  drawn directly, the transaction commits. The counter has then issued 0, 1 and 2.
\<close>

definition example_issue_ops :: "op list" where
  "example_issue_ops = [BeginOp None, GetTimestampOp, CommitOp 0 3 4]"

definition example_issued :: system where
  "example_issued = projr (exec example_issue_ops (example_workers True None False))"

text \<open>
  The transaction begun on thread context 0 once the counter has wrapped around, while
  the transaction with start time \<open>2^64 - 1\<close> is still running.
\<close>

definition example_begun_after_wraparound :: system where
  "example_begun_after_wraparound = snd (projr (BeginTransaction example_wrapped (Some 0)))"

text \<open>
  A transaction that has staged a write and not updated any tuple: its last redo record
  is a \<^verbatim>\<open>REDO\<close> and its undo buffer is empty. The flag says whether assertions are
  compiled out.
\<close>

definition example_staged :: "bool \<Rightarrow> system" where
  "example_staged ndebug =
     (upd_txn (example_updating None UPDATE None) 0 (\<lambda>T. T\<lparr>undo_buffer := []\<rparr>))\<lparr>NDEBUG := ndebug\<rparr>"

text \<open>
  An updating commit with logging disabled, and the state it leaves.
\<close>

definition example_committed_unlogged :: system where
  "example_committed_unlogged = snd (projr (Commit (example_updating None UPDATE (Some 0)) 0 3 4))"

section \<open>Properties\<close>

subsection \<open>Words and minima\<close>

lemma INT64_MIN_eq: "INT64_MIN = 2 ^ 63"
  by (simp add: INT64_MIN_def)

lemma min_element_Min: "min_element xs = (if xs = [] then None else Some (Min (set xs)))"
proof (cases xs)
  case Nil then show ?thesis by (simp add: min_element_def)
next
  case (Cons y ys)
  have "fold (\<lambda>x smallest. if x < smallest then x else smallest) ys y = fold min ys y"
    by (rule arg_cong[where f="\<lambda>f. fold f ys y"]) (auto simp: fun_eq_iff min_def)
  moreover have "Min (set (y # ys)) = fold min ys y" by (rule Min.set_eq_fold)
  ultimately show ?thesis using Cons by (simp add: min_element_def)
qed

lemma fold_oldest_Min: "fold_oldest xs t = Min (insert t (set xs))"
  by (cases "xs = []") (simp_all add: fold_oldest_def min_element_Min min.commute)

lemma mask63: "(mask 63 :: 64 word) AND 2 ^ 63 = 0"
  by (simp add: mask_eq_exp_minus_1)

lemma bit63: 
  fixes s :: "64 word"
  assumes "s < 2^63" shows "s + 2^63 = s OR 2^63"
proof -
  have "s AND mask 63 = s" using assms by (rule less_mask_eq)
  then have "s AND 2 ^ 63 = (s AND mask 63) AND 2 ^ 63" by simp
  also have "\<dots> = s AND (mask 63 AND 2 ^ 63)" by (simp only: and.assoc)
  also have "\<dots> = 0" by (simp only: mask63 and_zero_eq)
  finally show ?thesis by (rule disjunctive_add_eq_or)
qed

lemma high_bit_lt:
  fixes s t :: "64 word"
  assumes "s < 2 ^ 63" "t \<le> s"
  shows "t < s + 2 ^ 63"
proof -
  have s: "unat s < 2 ^ 63" using assms(1) by (simp add: word_less_nat_alt)
  have "unat (s + 2 ^ 63) = (unat s + 2 ^ 63) mod 2 ^ 64"
    by (simp add: unat_word_ariths)
  also have "\<dots> = unat s + 2 ^ 63" using s by simp
  finally have e: "unat (s + 2 ^ 63) = unat s + 2 ^ 63" .
  have "unat t \<le> unat s" using assms(2) by (simp add: word_le_nat_alt)
  then show ?thesis using e by (simp add: word_less_nat_alt)
qed

lemma Min_insert_Min:
  fixes t :: "'a::linorder"
  assumes "finite A" "finite B"
  shows "Min (insert (Min (insert t A)) B) = Min (insert t (A \<union> B))"
proof (cases "B = {}")
  case True then show ?thesis by simp
next
  case False
  have "Min (insert (Min (insert t A)) B) = min (Min (insert t A)) (Min B)"
    using assms(2) False by (rule Min.insert)
  also have "\<dots> = Min (insert t A \<union> B)"
    using assms False by (simp only: Min.union finite_insert insert_not_empty not_False_eq_True)
  finally show ?thesis by simp
qed

lemma fold_workers:
  "fold (\<lambda>tc oldest. fold_oldest (f tc) oldest) ws t = Min (insert t (\<Union>tc\<in>set ws. set (f tc)))"
proof (induction ws arbitrary: t)
  case Nil then show ?case by simp
next
  case (Cons w ws)
  have "fold (\<lambda>tc oldest. fold_oldest (f tc) oldest) (w # ws) t
        = Min (insert (Min (insert t (set (f w)))) (\<Union>tc\<in>set ws. set (f tc)))"
    using Cons by (simp add: fold_oldest_Min del: Min_insert)
  also have "\<dots> = Min (insert t (set (f w) \<union> (\<Union>tc\<in>set ws. set (f tc))))"
    by (rule Min_insert_Min) simp_all
  finally show ?case by simp
qed

subsection \<open>What the commit path touches\<close>

lemma LogCommit_frame:
  "mgr (LogCommit st txn ct cb arg) = mgr st"
  "threads (LogCommit st txn ct cb arg) = threads st"
  "undo_records (LogCommit st txn ct cb arg) = undo_records st"
  "tables (LogCommit st txn ct cb arg) = tables st"
  "txn_alloc (LogCommit st txn ct cb arg) = txn_alloc st"
  "thread_alloc (LogCommit st txn ct cb arg) = thread_alloc st"
  "NDEBUG (LogCommit st txn ct cb arg) = NDEBUG st"
  by (simp_all add: LogCommit_def upd_txn_def Let_def)

lemma LogCommit_txns_other:
  "t \<noteq> txn \<Longrightarrow> txns (LogCommit st txn ct cb arg) t = txns st t"
  by (simp add: LogCommit_def upd_txn_def Let_def)

lemma LogCommit_txn_fields:
  "start_time (txns (LogCommit st txn ct cb arg) t) = start_time (txns st t)"
  "thread_context (txns (LogCommit st txn ct cb arg) t) = thread_context (txns st t)"
  "undo_buffer (txns (LogCommit st txn ct cb arg) t) = undo_buffer (txns st t)"
  "loose_ptrs (txns (LogCommit st txn ct cb arg) t) = loose_ptrs (txns st t)"
  by (simp_all add: LogCommit_def upd_txn_def Let_def NewEntry_def Finalize_def)

lemma LogCommit_txn_id: "txn_id (txns (LogCommit st txn ct cb arg) txn) = ct"
  by (simp add: LogCommit_def upd_txn_def Let_def)

lemma LogCommit_finalized:
  "finalized (redo_buffer (txns (LogCommit st txn ct cb arg) txn)) = Some True"
  by (simp add: LogCommit_def upd_txn_def Let_def Finalize_def)

lemma LogCommit_redo_enabled:
  "log_manager (mgr st) \<noteq> None \<Longrightarrow>
   records (redo_buffer (txns (LogCommit st txn ct cb arg) txn)) =
     records (redo_buffer (txns st txn)) @
       [CommitLog \<lparr>cr_txn_begin = start_time (txns st txn), cr_commit_time = ct,
                  cr_callback = cb, cr_callback_arg = arg,
                  cr_is_read_only = (undo_buffer (txns st txn) = []), cr_txn = txn\<rparr>]"
  by (simp add: LogCommit_def upd_txn_def Let_def Finalize_def NewEntry_def LOGGING_DISABLED_def UndoEmpty_def)

lemma LogCommit_redo_disabled:
  "log_manager (mgr st) = None \<Longrightarrow>
   records (redo_buffer (txns (LogCommit st txn ct cb arg) txn)) = records (redo_buffer (txns st txn))
   \<and> log_processed (txns (LogCommit st txn ct cb arg) txn)
   \<and> callbacks_invoked (LogCommit st txn ct cb arg) = callbacks_invoked st @ [(cb, arg)]"
  by (simp add: LogCommit_def upd_txn_def Let_def Finalize_def NewEntry_def LOGGING_DISABLED_def)

lemma fold_store_frame:
  "mgr (fold (store_Timestamp c) rs st) = mgr st"
  "threads (fold (store_Timestamp c) rs st) = threads st"
  "txns (fold (store_Timestamp c) rs st) = txns st"
  "tables (fold (store_Timestamp c) rs st) = tables st"
  "txn_alloc (fold (store_Timestamp c) rs st) = txn_alloc st"
  "thread_alloc (fold (store_Timestamp c) rs st) = thread_alloc st"
  "NDEBUG (fold (store_Timestamp c) rs st) = NDEBUG st"
  "callbacks_invoked (fold (store_Timestamp c) rs st) = callbacks_invoked st"
  by (induction rs arbitrary: st; simp add: store_Timestamp_def)+

lemma fold_store_records:
  "undo_records (fold (store_Timestamp c) rs st) r =
     (if r \<in> set rs then (undo_records st r)\<lparr>Timestamp := c\<rparr> else undo_records st r)"
  by (induction rs arbitrary: st) (auto simp: store_Timestamp_def)

lemma erase_running_frame:
  "time (mgr (fst (erase_running st s tc))) = time (mgr st)"
  "gc_enabled (mgr (fst (erase_running st s tc))) = gc_enabled (mgr st)"
  "completed_txns (mgr (fst (erase_running st s tc))) = completed_txns (mgr st)"
  "log_manager (mgr (fst (erase_running st s tc))) = log_manager (mgr st)"
  "curr_running_workers (mgr (fst (erase_running st s tc))) = curr_running_workers (mgr st)"
  "txns (fst (erase_running st s tc)) = txns st"
  "undo_records (fst (erase_running st s tc)) = undo_records st"
  "tables (fst (erase_running st s tc)) = tables st"
  "txn_alloc (fst (erase_running st s tc)) = txn_alloc st"
  "thread_alloc (fst (erase_running st s tc)) = thread_alloc st"
  "NDEBUG (fst (erase_running st s tc)) = NDEBUG st"
  "callbacks_invoked (fst (erase_running st s tc)) = callbacks_invoked st"
  by (simp_all add: erase_running_def erase_def upd_thread_def split: option.split)

lemma erase_running_sets:
  "running_set_of (fst (erase_running st s tc)) tc' =
     (if tc' = tc then removeAll s (running_set_of st tc) else running_set_of st tc')"
  by (auto simp: erase_running_def erase_def upd_thread_def running_set_of_def split: option.split)

lemma erase_running_ret:
  "snd (erase_running st s tc) = (if s \<in> set (running_set_of st tc) then 1 else 0)"
  by (auto simp: erase_running_def erase_def upd_thread_def running_set_of_def split: option.split)

subsection \<open>What rollback touches\<close>

lemma storage_side_refl: "storage_side st st"
  by (simp add: storage_side_def keeps_bookkeeping_def)

lemma storage_side_trans: "storage_side a b \<Longrightarrow> storage_side b c \<Longrightarrow> storage_side a c"
  by (simp add: storage_side_def keeps_bookkeeping_def)

lemma storage_side_upd_table [simp]: "storage_side st (upd_table st' tb f) \<longleftrightarrow> storage_side st st'"
  by (simp add: storage_side_def keeps_bookkeeping_def upd_table_def)

lemma storage_side_loose [simp]:
  "storage_side st (upd_txn st' txn (\<lambda>T. T\<lparr>loose_ptrs := g T\<rparr>)) \<longleftrightarrow> storage_side st st'"
  by (auto simp: storage_side_def keeps_bookkeeping_def upd_txn_def)

lemma push_varlen_side: "push_varlen st txn v = Inr st' \<Longrightarrow> storage_side st st'"
  by (auto simp: push_varlen_def storage_side_refl split: option.splits)

lemma push_varlen_no_throw: "no_throw (push_varlen st txn v)"
  by (auto simp: push_varlen_def no_throw_def TERRIER_ASSERT_def split: option.splits)

lemma DeallocateColumnUpdateIfVarlen_side:
  "DeallocateColumnUpdateIfVarlen st txn u i tb = Inr st' \<Longrightarrow> storage_side st st'"
  by (auto simp: DeallocateColumnUpdateIfVarlen_def Let_def storage_side_refl
           dest: push_varlen_side split: if_splits)

lemma DeallocateColumnUpdateIfVarlen_no_throw:
  "no_throw (DeallocateColumnUpdateIfVarlen st txn u i tb)"
  using push_varlen_no_throw
  by (auto simp: DeallocateColumnUpdateIfVarlen_def Let_def no_throw_def)

lemma DeallocateInserted_loop_side:
  "DeallocateInserted_loop txn u tb is st = Inr st' \<Longrightarrow> storage_side st st'"
proof (induction "is" arbitrary: st)
  case Nil then show ?case by (simp add: storage_side_refl)
next
  case (Cons i "is")
  then show ?case
    by (auto simp: Let_def split: if_splits sum.splits
             dest: push_varlen_side intro: storage_side_trans)
qed

lemma DeallocateInserted_loop_no_throw: "no_throw (DeallocateInserted_loop txn u tb is st)"
proof (induction "is" arbitrary: st)
  case Nil then show ?case by (simp add: no_throw_def)
next
  case (Cons i "is")
  show ?case using Cons[unfolded no_throw_def] push_varlen_no_throw[unfolded no_throw_def]
    by (auto simp: Let_def no_throw_def split: if_splits sum.splits)
qed

lemma Rollback_update_loop_side:
  "Rollback_update_loop txn vp tb slot is st = Inr st' \<Longrightarrow> storage_side st st'"
proof (induction "is" arbitrary: st)
  case Nil then show ?case by (simp add: storage_side_refl)
next
  case (Cons i "is")
  from Cons.prems obtain st1 where
    1: "DeallocateColumnUpdateIfVarlen st txn vp i tb = Inr st1" and
    2: "Rollback_update_loop txn vp tb slot is
          (upd_table st1 tb (\<lambda>t. CopyAttrFromProjection t slot (Delta (undo_records st1 vp)) i)) = Inr st'"
    by (auto split: sum.splits)
  have "storage_side st (upd_table st1 tb (\<lambda>t. CopyAttrFromProjection t slot (Delta (undo_records st1 vp)) i))"
    using DeallocateColumnUpdateIfVarlen_side[OF 1] by simp
  then show ?case using Cons.IH[OF 2] by (rule storage_side_trans)
qed

lemma Rollback_update_loop_no_throw: "no_throw (Rollback_update_loop txn vp tb slot is st)"
proof (induction "is" arbitrary: st)
  case Nil then show ?case by (simp add: no_throw_def)
next
  case (Cons i "is")
  show ?case
    using Cons[unfolded no_throw_def] DeallocateColumnUpdateIfVarlen_no_throw[unfolded no_throw_def]
    by (auto simp: no_throw_def split: sum.splits)
qed

lemma Rollback_side: "Rollback st txn r = Inr st' \<Longrightarrow> storage_side st st'"
  unfolding Rollback_def Let_def DeallocateInsertedTupleIfVarlen_def
  by (auto split: option.splits sum.splits DeltaRecordType.splits
           dest!: Rollback_update_loop_side DeallocateInserted_loop_side
           simp: storage_side_refl)

lemma GCLastUpdate_loop_side:
  "GCLastUpdate_loop txn redo layout is st = Inr st' \<Longrightarrow> storage_side st st'"
proof (induction "is" arbitrary: st)
  case Nil then show ?case by (simp add: storage_side_refl)
next
  case (Cons i "is")
  then show ?case
    by (auto simp: Let_def split: if_splits sum.splits
             dest: push_varlen_side intro: storage_side_trans)
qed

lemma GCLastUpdateOnAbort_side: "GCLastUpdateOnAbort st txn = Inr st' \<Longrightarrow> storage_side st st'"
  unfolding GCLastUpdateOnAbort_def Let_def
  by (auto split: option.splits LogRecord.splits if_splits
           dest!: GCLastUpdate_loop_side intro: storage_side_refl)

lemma Abort_rollback_loop_side:
  "Abort_rollback_loop txn rs st = Inr st' \<Longrightarrow> storage_side st st'"
proof (induction rs arbitrary: st)
  case Nil then show ?case by (simp add: storage_side_refl)
next
  case (Cons r rs)
  then show ?case
    by (auto split: sum.splits dest!: Rollback_side intro: storage_side_trans)
qed

subsection \<open>Commit\<close>

lemma ReadOnly_eq:
  "ReadOnlyCommitCriticalSection st txn cb arg =
     (time (mgr st), LogCommit (st\<lparr>mgr := (mgr st)\<lparr>time := time (mgr st) + 1\<rparr>\<rparr>) txn (time (mgr st)) cb arg)"
  by (simp add: ReadOnlyCommitCriticalSection_def GetTimestamp_def)

lemma Updating_eq:
  "UpdatingCommitCriticalSection st txn cb arg =
     (time (mgr st),
      fold (store_Timestamp (time (mgr st))) (undo_buffer (txns st txn))
        (LogCommit (st\<lparr>mgr := (mgr st)\<lparr>time := time (mgr st) + 1\<rparr>\<rparr>) txn (time (mgr st)) cb arg))"
  by (simp add: UpdatingCommitCriticalSection_def GetTimestamp_def Let_def LogCommit_txn_fields)

lemma commit_section_frame:
  "mgr (commit_section st txn cb arg) = (mgr st)\<lparr>time := time (mgr st) + 1\<rparr>"
  "threads (commit_section st txn cb arg) = threads st"
  "txn_alloc (commit_section st txn cb arg) = txn_alloc st"
  "NDEBUG (commit_section st txn cb arg) = NDEBUG st"
  "tables (commit_section st txn cb arg) = tables st"
  "start_time (txns (commit_section st txn cb arg) t) = start_time (txns st t)"
  "thread_context (txns (commit_section st txn cb arg) t) = thread_context (txns st t)"
  "undo_buffer (txns (commit_section st txn cb arg) t) = undo_buffer (txns st t)"
  "loose_ptrs (txns (commit_section st txn cb arg) t) = loose_ptrs (txns st t)"
  "txn_id (txns (commit_section st txn cb arg) txn) = time (mgr st)"
  "finalized (redo_buffer (txns (commit_section st txn cb arg) txn)) = Some True"
  by (simp_all add: commit_section_def ReadOnly_eq Updating_eq LogCommit_frame LogCommit_txn_fields
        LogCommit_txn_id LogCommit_finalized fold_store_frame)

lemma commit_section_other:
  "t \<noteq> txn \<Longrightarrow> txns (commit_section st txn cb arg) t = txns st t"
  by (simp add: commit_section_def ReadOnly_eq Updating_eq LogCommit_txns_other fold_store_frame)

lemma Commit_eq:
  "Commit st txn cb arg =
     (let st1 = commit_section st txn cb arg;
          p = erase_running st1 (start_time (txns st txn)) (thread_context (txns st txn))
      in if NDEBUG st \<or> snd p = 1 then Inr (time (mgr st), push_completed (fst p) txn)
         else Inl (AssertionFailed ''Committed transaction did not exist in global transactions table''))"
proof (cases "UndoEmpty (undo_buffer (txns st txn))")
  case True
  then show ?thesis
    by (simp add: Commit_def commit_section_def ReadOnly_eq split_beta Let_def TERRIER_ASSERT_def
          erase_running_frame LogCommit_frame LogCommit_txn_fields)
next
  case False
  then show ?thesis
    by (simp add: Commit_def commit_section_def Updating_eq split_beta Let_def TERRIER_ASSERT_def
          erase_running_frame LogCommit_frame LogCommit_txn_fields fold_store_frame)
qed

lemma push_completed_frame:
  "time (mgr (push_completed st t)) = time (mgr st)"
  "gc_enabled (mgr (push_completed st t)) = gc_enabled (mgr st)"
  "curr_running_txns (mgr (push_completed st t)) = curr_running_txns (mgr st)"
  "curr_running_workers (mgr (push_completed st t)) = curr_running_workers (mgr st)"
  "log_manager (mgr (push_completed st t)) = log_manager (mgr st)"
  "threads (push_completed st t) = threads st"
  "txns (push_completed st t) = txns st"
  "undo_records (push_completed st t) = undo_records st"
  "tables (push_completed st t) = tables st"
  "txn_alloc (push_completed st t) = txn_alloc st"
  "NDEBUG (push_completed st t) = NDEBUG st"
  "callbacks_invoked (push_completed st t) = callbacks_invoked st"
  "completed_txns (mgr (push_completed st t)) =
     (if gc_enabled (mgr st) then t # completed_txns (mgr st) else completed_txns (mgr st))"
  by (simp_all add: push_completed_def)

lemma running_set_of_cong:
  "curr_running_txns (mgr a) = curr_running_txns (mgr b) \<Longrightarrow> threads a = threads b \<Longrightarrow>
   running_set_of a tc = running_set_of b tc"
  by (cases tc) (simp_all add: running_set_of_def)

lemma running_set_of_push [simp]: "running_set_of (push_completed st t) tc = running_set_of st tc"
  by (rule running_set_of_cong) (simp_all add: push_completed_frame)

lemma running_set_of_commit_section [simp]:
  "running_set_of (commit_section st txn cb arg) tc = running_set_of st tc"
  by (rule running_set_of_cong) (simp_all add: commit_section_frame)

lemma Commit_Inr:
  assumes "Commit st t cb arg = Inr (ts, st')"
  shows "ts = time (mgr st)" "time (mgr st') = time (mgr st) + 1" "finishes st t st'"
proof -
  let ?st1 = "commit_section st t cb arg"
  let ?p = "erase_running ?st1 (start_time (txns st t)) (thread_context (txns st t))"
  from assms have ts: "ts = time (mgr st)" and st': "st' = push_completed (fst ?p) t"
    by (auto simp: Commit_eq Let_def split: if_splits)
  show "ts = time (mgr st)" by (rule ts)
  show "time (mgr st') = time (mgr st) + 1"
    by (simp add: st' push_completed_frame erase_running_frame commit_section_frame)
  show "finishes st t st'"
    unfolding finishes_def st'
    by (simp add: push_completed_frame erase_running_frame commit_section_frame erase_running_sets)
qed

lemma Commit_total:
  "NDEBUG st \<or> start_time (txns st t) \<in> set (running_set_of st (thread_context (txns st t))) \<Longrightarrow>
   \<exists>st'. Commit st t cb arg = Inr (time (mgr st), st')"
  by (auto simp: Commit_eq Let_def erase_running_ret)

subsection \<open>Abort and BeginTransaction\<close>

lemma Abort_Inr_ex:
  assumes "Abort st t = Inr st'"
  shows "\<exists>st2. storage_side st st2 \<and>
           st' = push_completed
                   (fst (erase_running
                           (upd_txn (upd_txn st2 t (\<lambda>T. T\<lparr>redo_buffer := Finalize (redo_buffer T) False\<rparr>))
                              t (\<lambda>T. T\<lparr>log_processed := True\<rparr>))
                           (start_time (txns st t)) (thread_context (txns st t)))) t"
proof -
  from assms obtain st1 st2 where
    1: "Abort_rollback_loop t (undo_buffer (txns st t)) st = Inr st1" and
    2: "GCLastUpdateOnAbort st1 t = Inr st2"
    by (auto simp: Abort_def split: sum.splits)
  have side: "storage_side st st2"
    using Abort_rollback_loop_side[OF 1] GCLastUpdateOnAbort_side[OF 2] by (rule storage_side_trans)
  then have f: "start_time (txns st2 t) = start_time (txns st t)"
     "thread_context (txns st2 t) = thread_context (txns st t)"
    by (simp_all add: storage_side_def keeps_bookkeeping_def)
  from assms 1 2 have
    "st' = push_completed
                   (fst (erase_running
                           (upd_txn (upd_txn st2 t (\<lambda>T. T\<lparr>redo_buffer := Finalize (redo_buffer T) False\<rparr>))
                              t (\<lambda>T. T\<lparr>log_processed := True\<rparr>))
                           (start_time (txns st t)) (thread_context (txns st t)))) t"
    by (auto simp: Abort_def Let_def split_beta upd_txn_def f split: option.splits)
  with side show ?thesis by blast
qed

lemma upd_txn_frame:
  "mgr (upd_txn st t f) = mgr st"
  "threads (upd_txn st t f) = threads st"
  "undo_records (upd_txn st t f) = undo_records st"
  "tables (upd_txn st t f) = tables st"
  "txn_alloc (upd_txn st t f) = txn_alloc st"
  "NDEBUG (upd_txn st t f) = NDEBUG st"
  "callbacks_invoked (upd_txn st t f) = callbacks_invoked st"
  "txns (upd_txn st t f) t = f (txns st t)"
  "u \<noteq> t \<Longrightarrow> txns (upd_txn st t f) u = txns st u"
  by (simp_all add: upd_txn_def)

lemma running_set_of_upd_txn [simp]: "running_set_of (upd_txn st t f) tc = running_set_of st tc"
  by (rule running_set_of_cong) (simp_all add: upd_txn_frame)

lemma Abort_Inr:
  assumes "Abort st t = Inr st'"
  shows "time (mgr st') = time (mgr st)" "finishes st t st'"
    "finalized (redo_buffer (txns st' t)) = Some False" "log_processed (txns st' t)"
proof -
  from Abort_Inr_ex[OF assms] obtain st2 where side: "storage_side st st2" and
    st': "st' = push_completed
                   (fst (erase_running
                           (upd_txn (upd_txn st2 t (\<lambda>T. T\<lparr>redo_buffer := Finalize (redo_buffer T) False\<rparr>))
                              t (\<lambda>T. T\<lparr>log_processed := True\<rparr>))
                           (start_time (txns st t)) (thread_context (txns st t)))) t"
    by blast
  from side have m: "mgr st2 = mgr st" "threads st2 = threads st" "txn_alloc st2 = txn_alloc st"
    "NDEBUG st2 = NDEBUG st"
    and f: "\<And>u. start_time (txns st2 u) = start_time (txns st u)"
           "\<And>u. thread_context (txns st2 u) = thread_context (txns st u)"
    by (simp_all add: storage_side_def keeps_bookkeeping_def)
  have rs: "\<And>tc. running_set_of st2 tc = running_set_of st tc"
    by (rule running_set_of_cong) (simp_all add: m)
  show "time (mgr st') = time (mgr st)"
    by (simp add: st' push_completed_frame erase_running_frame upd_txn_frame m)
  show "finalized (redo_buffer (txns st' t)) = Some False"
    by (simp add: st' push_completed_frame erase_running_frame upd_txn_frame Finalize_def)
  show "log_processed (txns st' t)"
    by (simp add: st' push_completed_frame erase_running_frame upd_txn_frame)
  have fu: "\<And>u. start_time (txns st' u) = start_time (txns st u) \<and>
          thread_context (txns st' u) = thread_context (txns st u)"
  proof -
    fix u show "start_time (txns st' u) = start_time (txns st u) \<and>
          thread_context (txns st' u) = thread_context (txns st u)"
      by (cases "u = t")
         (simp_all add: st' push_completed_frame erase_running_frame upd_txn_frame f)
  qed
  show "finishes st t st'"
    unfolding finishes_def
    apply (intro conjI allI)
         apply (simp add: st' push_completed_frame erase_running_frame upd_txn_frame m)
        apply (simp add: st' push_completed_frame erase_running_frame upd_txn_frame m)
       apply (simp add: st' push_completed_frame erase_running_frame upd_txn_frame m)
      apply (simp add: fu)
      apply (simp add: fu)
     apply (simp add: st' push_completed_frame erase_running_frame upd_txn_frame m)
    apply (simp add: st' erase_running_sets rs)
    done
qed

lemma emplace_set: "set (fst (emplace x xs)) = insert x (set xs)"
  by (auto simp: emplace_def)

lemma BeginTransaction_Inr:
  assumes "BeginTransaction st tc = Inr (t, st')"
  shows "t = txn_alloc st" "txn_alloc st' = Suc (txn_alloc st)"
    "time (mgr st') = time (mgr st) + 1"
    "txns st' = (txns st)(t := TransactionContext_new (time (mgr st)) (time (mgr st) + INT64_MIN)
                   (buffer_pool (mgr st)) (log_manager (mgr st)) tc)"
    "gc_enabled (mgr st') = gc_enabled (mgr st)"
    "completed_txns (mgr st') = completed_txns (mgr st)"
    "NDEBUG st' = NDEBUG st"
    "running_set_of st' tc' =
       (if tc' = tc then fst (emplace (time (mgr st)) (running_set_of st tc))
        else running_set_of st tc')"
    "NDEBUG st \<or> time (mgr st) \<notin> set (running_set_of st tc)"
  using assms
  by (auto simp: BeginTransaction_def GetTimestamp_def Let_def split_beta TERRIER_ASSERT_def
        TransactionContext_new_def upd_thread_def running_set_of_def emplace_def
        split: option.splits if_splits)

lemma BeginTransaction_total:
  "NDEBUG st \<or> time (mgr st) \<notin> set (running_set_of st tc) \<Longrightarrow>
   \<exists>st'. BeginTransaction st tc = Inr (txn_alloc st, st')"
  by (auto simp: BeginTransaction_def GetTimestamp_def Let_def split_beta TERRIER_ASSERT_def
        TransactionContext_new_def upd_thread_def running_set_of_def emplace_def
        split: option.splits if_splits)

subsection \<open>The invariant of the running sets\<close>

lemma InvD1:
  "Inv st L \<Longrightarrow> p \<in> set L \<Longrightarrow>
   fst p < txn_alloc st \<and> thread_context (txns st (fst p)) = snd p \<and>
   start_time (txns st (fst p)) \<in> set (running_set_of st (snd p)) \<and>
   unat (start_time (txns st (fst p))) < unat (time (mgr st))"
  unfolding Inv_def by blast

lemma InvD2:
  "Inv st L \<Longrightarrow> s \<in> set (running_set_of st tc) \<Longrightarrow>
   \<exists>p \<in> set L. snd p = tc \<and> start_time (txns st (fst p)) = s"
  unfolding Inv_def by blast

lemma InvD3:
  "Inv st L \<Longrightarrow> p \<in> set L \<Longrightarrow> q \<in> set L \<Longrightarrow>
   start_time (txns st (fst p)) = start_time (txns st (fst q)) \<Longrightarrow> fst p = fst q"
  unfolding Inv_def by blast

lemma InvI:
  assumes "\<And>p. p \<in> set L \<Longrightarrow>
     fst p < txn_alloc st \<and> thread_context (txns st (fst p)) = snd p \<and>
     start_time (txns st (fst p)) \<in> set (running_set_of st (snd p)) \<and>
     unat (start_time (txns st (fst p))) < unat (time (mgr st))"
   and "\<And>tc s. s \<in> set (running_set_of st tc) \<Longrightarrow>
     \<exists>p \<in> set L. snd p = tc \<and> start_time (txns st (fst p)) = s"
   and "\<And>p q. p \<in> set L \<Longrightarrow> q \<in> set L \<Longrightarrow>
     start_time (txns st (fst p)) = start_time (txns st (fst q)) \<Longrightarrow> fst p = fst q"
  shows "Inv st L"
  unfolding Inv_def using assms by blast

lemma unat_inc: "unat (x::64 word) + 1 < 2 ^ 64 \<Longrightarrow> unat (x + 1) = unat x + 1"
  by (simp add: unat_word_ariths)

lemma Inv_Begin:
  assumes inv: "Inv st L" and b: "BeginTransaction st tc = Inr (t, st')"
    and nw: "unat (time (mgr st)) + 1 < 2 ^ 64"
  shows "Inv st' ((txn_alloc st, tc) # L)"
proof -
  note B = BeginTransaction_Inr[OF b]
  have t: "t = txn_alloc st" by (rule B(1))
  have tm: "unat (time (mgr st')) = unat (time (mgr st)) + 1"
    using nw by (simp add: B(3) unat_inc)
  have new: "txns st' t = TransactionContext_new (time (mgr st)) (time (mgr st) + INT64_MIN)
                   (buffer_pool (mgr st)) (log_manager (mgr st)) tc"
    by (simp add: B(4))
  have newst: "start_time (txns st' t) = time (mgr st)" "thread_context (txns st' t) = tc"
    by (simp_all add: new TransactionContext_new_def)
  have rs: "\<And>tc'. set (running_set_of st' tc') =
              (if tc' = tc then insert (time (mgr st)) (set (running_set_of st tc')) else set (running_set_of st tc'))"
    by (simp add: B(8) emplace_set)
  have Lold: "\<And>p. p \<in> set L \<Longrightarrow> fst p \<noteq> t \<and> txns st' (fst p) = txns st (fst p)"
  proof -
    fix p assume "p \<in> set L"
    then have "fst p < txn_alloc st" using InvD1[OF inv] by blast
    then have "fst p \<noteq> t" by (simp add: t)
    then show "fst p \<noteq> t \<and> txns st' (fst p) = txns st (fst p)" by (simp add: B(4))
  qed
  have lt: "\<And>p. p \<in> set L \<Longrightarrow> start_time (txns st' (fst p)) \<noteq> time (mgr st)"
  proof -
    fix p assume m: "p \<in> set L"
    then have "unat (start_time (txns st (fst p))) < unat (time (mgr st))"
      using InvD1[OF inv] by blast
    then show "start_time (txns st' (fst p)) \<noteq> time (mgr st)" using Lold[OF m] by auto
  qed
  show ?thesis
  proof (rule InvI)
    fix p assume p: "p \<in> set ((txn_alloc st, tc) # L)"
    show "fst p < txn_alloc st' \<and> thread_context (txns st' (fst p)) = snd p \<and>
       start_time (txns st' (fst p)) \<in> set (running_set_of st' (snd p)) \<and>
       unat (start_time (txns st' (fst p))) < unat (time (mgr st'))"
    proof (cases "p = (txn_alloc st, tc)")
      case True
      then show ?thesis using newst tm by (simp add: B(2) rs t[symmetric])
    next
      case False
      with p have m: "p \<in> set L" by simp
      from InvD1[OF inv m] Lold[OF m] tm show ?thesis by (auto simp: B(2) rs)
    qed
  next
    fix c s assume s: "s \<in> set (running_set_of st' c)"
    show "\<exists>p\<in>set ((txn_alloc st, tc) # L). snd p = c \<and> start_time (txns st' (fst p)) = s"
    proof (cases "c = tc \<and> s = time (mgr st)")
      case True
      then show ?thesis using newst t by simp
    next
      case False
      with s have "s \<in> set (running_set_of st c)" by (auto simp: rs split: if_splits)
      from InvD2[OF inv this] obtain p where p: "p \<in> set L" "snd p = c" "start_time (txns st (fst p)) = s"
        by blast
      with Lold[OF p(1)] have "p\<in>set ((txn_alloc st, tc) # L) \<and> snd p = c \<and> start_time (txns st' (fst p)) = s"
        by simp
      then show ?thesis by blast
    qed
  next
    fix p q assume p: "p \<in> set ((txn_alloc st, tc) # L)" and q: "q \<in> set ((txn_alloc st, tc) # L)"
      and e: "start_time (txns st' (fst p)) = start_time (txns st' (fst q))"
    show "fst p = fst q"
    proof (cases "p \<in> set L")
      case pL: True
      show ?thesis
      proof (cases "q \<in> set L")
        case qL: True
        from e Lold[OF pL] Lold[OF qL]
        have "start_time (txns st (fst p)) = start_time (txns st (fst q))" by simp
        then show ?thesis by (rule InvD3[OF inv pL qL])
      next
        case False
        with q have "fst q = t" by (simp add: t)
        with e lt[OF pL] newst show ?thesis by simp
      qed
    next
      case False
      with p have fp: "fst p = t" by (simp add: t)
      show ?thesis
      proof (cases "q \<in> set L")
        case qL: True
        with e lt[OF qL] newst fp show ?thesis by simp
      next
        case False
        with q have "fst q = t" by (simp add: t)
        with fp show ?thesis by simp
      qed
    qed
  qed
qed

lemma Inv_finishes:
  assumes inv: "Inv st L" and f: "finishes st t st'" and live: "t \<in> fst ` set L"
    and tm: "unat (time (mgr st)) \<le> unat (time (mgr st'))"
  shows "Inv st' (filter (\<lambda>p. fst p \<noteq> t) L)"
proof -
  from live obtain p0 where p0: "p0 \<in> set L" "fst p0 = t" by auto
  have tc0: "thread_context (txns st t) = snd p0" using InvD1[OF inv p0(1)] p0(2) by simp
  have fld: "\<And>u. start_time (txns st' u) = start_time (txns st u)"
            "\<And>u. thread_context (txns st' u) = thread_context (txns st u)"
    and al: "txn_alloc st' = txn_alloc st"
    and rs: "\<And>c. running_set_of st' c =
        (if c = snd p0 then removeAll (start_time (txns st t)) (running_set_of st c)
         else running_set_of st c)"
    using f by (simp_all add: finishes_def tc0)
  have uniq: "\<And>p. p \<in> set L \<Longrightarrow> start_time (txns st (fst p)) = start_time (txns st t) \<Longrightarrow> fst p = t"
    using InvD3[OF inv _ p0(1)] p0(2) by simp
  show ?thesis
  proof (rule InvI)
    fix p assume "p \<in> set (filter (\<lambda>p. fst p \<noteq> t) L)"
    then have m: "p \<in> set L" and ne: "fst p \<noteq> t" by simp_all
    have "start_time (txns st (fst p)) \<noteq> start_time (txns st t)" using uniq[OF m] ne by blast
    then show "fst p < txn_alloc st' \<and> thread_context (txns st' (fst p)) = snd p \<and>
       start_time (txns st' (fst p)) \<in> set (running_set_of st' (snd p)) \<and>
       unat (start_time (txns st' (fst p))) < unat (time (mgr st'))"
      using InvD1[OF inv m] tm by (auto simp: rs fld al)
  next
    fix c s assume s: "s \<in> set (running_set_of st' c)"
    then have s0: "s \<in> set (running_set_of st c)" by (simp add: rs split: if_splits)
    from InvD2[OF inv s0] obtain p where p: "p \<in> set L" "snd p = c" "start_time (txns st (fst p)) = s"
      by blast
    have "fst p \<noteq> t"
    proof
      assume e: "fst p = t"
      then have "c = snd p0" using InvD1[OF inv p(1)] tc0 p(2) by simp
      with s p(3) e show False by (simp add: rs)
    qed
    with p have "p \<in> set (filter (\<lambda>p. fst p \<noteq> t) L) \<and> snd p = c \<and> start_time (txns st' (fst p)) = s"
      by (simp add: fld)
    then show "\<exists>p\<in>set (filter (\<lambda>p. fst p \<noteq> t) L). snd p = c \<and> start_time (txns st' (fst p)) = s"
      by blast
  next
    fix p q assume "p \<in> set (filter (\<lambda>p. fst p \<noteq> t) L)" "q \<in> set (filter (\<lambda>p. fst p \<noteq> t) L)"
      and e: "start_time (txns st' (fst p)) = start_time (txns st' (fst q))"
    then have "p \<in> set L" "q \<in> set L" by simp_all
    then show "fst p = fst q" using e InvD3[OF inv] by (simp add: fld)
  qed
qed

lemma Inv_storage:
  assumes inv: "Inv st L" and k: "keeps_bookkeeping st st'"
  shows "Inv st' L"
proof -
  have rs: "\<And>c. running_set_of st' c = running_set_of st c"
    by (rule running_set_of_cong) (use k in \<open>simp_all add: keeps_bookkeeping_def\<close>)
  have e: "txn_alloc st' = txn_alloc st" "time (mgr st') = time (mgr st)"
    "\<And>t. start_time (txns st' t) = start_time (txns st t)"
    "\<And>t. thread_context (txns st' t) = thread_context (txns st t)"
    using k by (simp_all add: keeps_bookkeeping_def)
  show ?thesis using inv unfolding Inv_def by (simp only: rs e)
qed

lemma Inv_GetTimestamp:
  assumes inv: "Inv st L" and nw: "unat (time (mgr st)) + 1 < 2 ^ 64"
  shows "Inv (snd (GetTimestamp st)) L"
proof -
  let ?st' = "snd (GetTimestamp st)"
  have rs: "\<And>c. running_set_of ?st' c = running_set_of st c"
    by (rule running_set_of_cong) (simp_all add: GetTimestamp_def)
  have e: "txn_alloc ?st' = txn_alloc st" "txns ?st' = txns st"
    by (simp_all add: GetTimestamp_def)
  have tm: "unat (time (mgr ?st')) = unat (time (mgr st)) + 1"
    using nw by (simp add: GetTimestamp_def unat_inc)
  show ?thesis
  proof (rule InvI)
    fix p assume "p \<in> set L"
    from InvD1[OF inv this] show "fst p < txn_alloc ?st' \<and> thread_context (txns ?st' (fst p)) = snd p \<and>
       start_time (txns ?st' (fst p)) \<in> set (running_set_of ?st' (snd p)) \<and>
       unat (start_time (txns ?st' (fst p))) < unat (time (mgr ?st'))"
      by (simp add: rs e tm)
  next
    fix c s assume "s \<in> set (running_set_of ?st' c)"
    then have "s \<in> set (running_set_of st c)" by (simp add: rs)
    from InvD2[OF inv this] show "\<exists>p\<in>set L. snd p = c \<and> start_time (txns ?st' (fst p)) = s"
      by (simp add: e)
  next
    fix p q assume "p \<in> set L" "q \<in> set L"
      and "start_time (txns ?st' (fst p)) = start_time (txns ?st' (fst q))"
    then show "fst p = fst q" using InvD3[OF inv] by (simp add: e)
  qed
qed

lemma Inv_step:
  assumes inv: "Inv st L" and ok: "op_ok x L" and s: "step x st = Inr st'"
    and nw: "unat (time (mgr st)) + draws_op x < 2 ^ 64"
  shows "Inv st' (live_step x st L)"
proof (cases x)
  case (BeginOp tc)
  with s obtain t where b: "BeginTransaction st tc = Inr (t, st')"
    by (auto split: sum.splits)
  show ?thesis using Inv_Begin[OF inv b] nw BeginOp by simp
next
  case (CommitOp t cb arg)
  with s obtain ts where c: "Commit st t cb arg = Inr (ts, st')"
    by (auto split: sum.splits)
  have "unat (time (mgr st')) = unat (time (mgr st)) + 1"
    using nw CommitOp by (simp add: Commit_Inr(2)[OF c] unat_inc)
  then show ?thesis using Inv_finishes[OF inv Commit_Inr(3)[OF c]] ok CommitOp by simp
next
  case (AbortOp t)
  with s have a: "Abort st t = Inr st'" by simp
  show ?thesis using Inv_finishes[OF inv Abort_Inr(2)[OF a]] ok AbortOp Abort_Inr(1)[OF a] by simp
next
  case GetTimestampOp
  with s have e: "st' = snd (GetTimestamp st)" by simp
  have "unat (time (mgr st)) + 1 < 2 ^ 64" using nw GetTimestampOp by simp
  from Inv_GetTimestamp[OF inv this] show ?thesis using GetTimestampOp e by simp
next
  case (StorageOp f)
  with s ok have "keeps_bookkeeping st st'" by (auto simp: storage_only_def)
  from Inv_storage[OF inv this] show ?thesis using StorageOp by simp
qed

lemma step_time:
  assumes s: "step x st = Inr st'" and ok: "storage_ok x"
  shows "time (mgr st') = time (mgr st) + of_nat (draws_op x)"
proof (cases x)
  case (BeginOp tc)
  with s obtain t where b: "BeginTransaction st tc = Inr (t, st')" by (auto split: sum.splits)
  show ?thesis using BeginOp by (simp add: BeginTransaction_Inr(3)[OF b])
next
  case (CommitOp t cb arg)
  with s obtain ts where c: "Commit st t cb arg = Inr (ts, st')" by (auto split: sum.splits)
  show ?thesis using CommitOp by (simp add: Commit_Inr(2)[OF c])
next
  case (AbortOp t)
  with s show ?thesis by (simp add: Abort_Inr(1))
next
  case GetTimestampOp
  with s show ?thesis by (auto simp: GetTimestamp_def)
next
  case (StorageOp f)
  with s ok show ?thesis by (auto simp: storage_only_def keeps_bookkeeping_def)
qed

lemma op_ok_storage_ok: "op_ok x L \<Longrightarrow> storage_ok x"
  by (cases x) simp_all

lemma unat_add_small:
  "unat (x::64 word) + n < 2 ^ 64 \<Longrightarrow> unat (x + of_nat n) = unat x + n"
  by (simp add: unat_word_ariths unat_of_nat)

lemma Inv_exec:
  "Inv st L \<Longrightarrow> client_ok xs st L \<Longrightarrow> exec xs st = Inr st' \<Longrightarrow>
   unat (time (mgr st)) + draws xs < 2 ^ 64 \<Longrightarrow> Inv st' (live_after xs st L)"
proof (induction xs arbitrary: st L)
  case Nil then show ?case by simp
next
  case (Cons x xs)
  from Cons.prems(3) obtain st1 where s: "step x st = Inr st1" and e: "exec xs st1 = Inr st'"
    by (auto split: sum.splits)
  have nw1: "unat (time (mgr st)) + draws_op x < 2 ^ 64" using Cons.prems(4) by (simp add: draws_def)
  have ok: "op_ok x L" "client_ok xs st1 (live_step x st L)" using Cons.prems(2) s by simp_all
  have inv1: "Inv st1 (live_step x st L)" by (rule Inv_step[OF Cons.prems(1) ok(1) s nw1])
  have tm: "unat (time (mgr st1)) = unat (time (mgr st)) + draws_op x"
    using step_time[OF s op_ok_storage_ok[OF ok(1)]] nw1 by (simp add: unat_add_small)
  have nw2: "unat (time (mgr st1)) + draws xs < 2 ^ 64" using Cons.prems(4) tm by (simp add: draws_def)
  show ?case using Cons.IH[OF inv1 ok(2) e nw2] s by simp
qed

lemma Inv_quiet: "\<forall>tc. running_set_of st tc = [] \<Longrightarrow> Inv st []"
  by (simp add: Inv_def)

lemma Inv_exactly_one:
  assumes inv: "Inv st L" and p: "p \<in> set L"
  shows "start_time (txns st (fst p)) \<in> set (running_set_of st (snd p)) \<and>
         (\<forall>tc'. tc' \<noteq> snd p \<longrightarrow> start_time (txns st (fst p)) \<notin> set (running_set_of st tc'))"
proof -
  have 1: "start_time (txns st (fst p)) \<in> set (running_set_of st (snd p))"
    using InvD1[OF inv p] by simp
  have "\<And>tc'. start_time (txns st (fst p)) \<in> set (running_set_of st tc') \<Longrightarrow> tc' = snd p"
  proof -
    fix tc' assume "start_time (txns st (fst p)) \<in> set (running_set_of st tc')"
    from InvD2[OF inv this] obtain q where q: "q \<in> set L" "snd q = tc'"
      "start_time (txns st (fst q)) = start_time (txns st (fst p))" by blast
    from InvD3[OF inv q(1) p q(3)] have "fst q = fst p" .
    with InvD1[OF inv q(1)] InvD1[OF inv p] q(2) show "tc' = snd p" by simp
  qed
  with 1 show ?thesis by blast
qed

lemmas eval_defs = fresh_system_def example_workers_def RegisterWorker_def TransactionManager_new_def TransactionThreadContext_new_def
  TransactionContext_new_def RedoBuffer_new_def BeginTransaction_def GetTimestamp_def Commit_def
  ReadOnlyCommitCriticalSection_def UpdatingCommitCriticalSection_def LogCommit_def
  erase_running_def erase_def emplace_def push_completed_def TERRIER_ASSERT_def upd_txn_def
  upd_thread_def upd_table_def UndoEmpty_def LOGGING_DISABLED_def NewEntry_def Finalize_def
  Abort_def GCLastUpdateOnAbort_def RedoLastRecord_def UndoLastRecord_def
  CompletedTransactionsForGC_def Let_def split_beta store_Timestamp_def running_set_of_def
  INT64_MIN_def Rollback_def AtomicallyReadVersionPtr_def AtomicallyWriteVersionPtr_def
  DeallocateColumnUpdateIfVarlen_def DeallocateInsertedTupleIfVarlen_def push_varlen_def
  AccessWithNullCheck_def SetNull_def SetNotNull_def Deallocate_def CopyAttrFromProjection_def
  NumColumns_def ColumnIds_def RowAccessWithNullCheck_def

subsection \<open>The watermark and the completed queue\<close>

text \<open>
  Claim C9. \<^verbatim>\<open>CompletedTransactionsForGC\<close> returns the whole queue of completed
  transactions and leaves the manager with an empty queue and everything else unchanged;
  called again at once, it returns the empty queue and leaves the state as it is.
\<close>

theorem CompletedTransactionsForGC_drains:
  "CompletedTransactionsForGC st =
     Inr (completed_txns (mgr st), st\<lparr>mgr := (mgr st)\<lparr>completed_txns := []\<rparr>\<rparr>) \<and>
   completed_txns (mgr (st\<lparr>mgr := (mgr st)\<lparr>completed_txns := []\<rparr>\<rparr>)) = [] \<and>
   CompletedTransactionsForGC (st\<lparr>mgr := (mgr st)\<lparr>completed_txns := []\<rparr>\<rparr>) =
     Inr ([], st\<lparr>mgr := (mgr st)\<lparr>completed_txns := []\<rparr>\<rparr>)"
  by (simp add: CompletedTransactionsForGC_def TERRIER_ASSERT_def Let_def)

text \<open>
  Claim C2. \<^verbatim>\<open>OldestTransactionStartTime\<close> returns the minimum of the counter value and
  of all start times in the global running set and in the running sets of the registered
  thread contexts. So it is at most every such start time and at most the counter, and
  it is the counter value when nothing is running.
\<close>

theorem OldestTransactionStartTime_min:
  "OldestTransactionStartTime st =
     Min (insert (time (mgr st))
            (set (curr_running_txns (mgr st)) \<union>
             (\<Union>tc \<in> set (curr_running_workers (mgr st)). set (tc_curr_running_txns (threads st tc))))) \<and>
   (\<forall>s \<in> set (curr_running_txns (mgr st)). OldestTransactionStartTime st \<le> s) \<and>
   (\<forall>tc \<in> set (curr_running_workers (mgr st)).
      \<forall>s \<in> set (tc_curr_running_txns (threads st tc)). OldestTransactionStartTime st \<le> s) \<and>
   OldestTransactionStartTime st \<le> time (mgr st) \<and>
   (curr_running_txns (mgr st) = [] \<and>
    (\<forall>tc \<in> set (curr_running_workers (mgr st)). tc_curr_running_txns (threads st tc) = []) \<longrightarrow>
    OldestTransactionStartTime st = time (mgr st))"
proof -
  let ?W = "\<Union>tc \<in> set (curr_running_workers (mgr st)). set (tc_curr_running_txns (threads st tc))"
  let ?S = "insert (time (mgr st)) (set (curr_running_txns (mgr st)) \<union> ?W)"
  have "OldestTransactionStartTime st =
          Min (insert (Min (insert (time (mgr st)) ?W)) (set (curr_running_txns (mgr st))))"
    unfolding OldestTransactionStartTime_def Let_def
    by (simp only: fold_workers) (simp only: fold_oldest_Min)
  also have "\<dots> = Min (insert (time (mgr st)) (?W \<union> set (curr_running_txns (mgr st))))"
    by (rule Min_insert_Min) simp_all
  finally have eq: "OldestTransactionStartTime st = Min ?S" by (simp add: Un_commute)
  have fin: "finite ?S" by simp
  have le: "\<And>s. s \<in> ?S \<Longrightarrow> OldestTransactionStartTime st \<le> s"
    unfolding eq using fin by (rule Min_le)
  have a: "\<forall>s \<in> set (curr_running_txns (mgr st)). OldestTransactionStartTime st \<le> s"
    using le by blast
  have b: "\<forall>tc \<in> set (curr_running_workers (mgr st)).
      \<forall>s \<in> set (tc_curr_running_txns (threads st tc)). OldestTransactionStartTime st \<le> s"
    using le by blast
  have c: "OldestTransactionStartTime st \<le> time (mgr st)" using le by blast
  have d: "curr_running_txns (mgr st) = [] \<and>
    (\<forall>tc \<in> set (curr_running_workers (mgr st)). tc_curr_running_txns (threads st tc) = []) \<longrightarrow>
    OldestTransactionStartTime st = time (mgr st)"
  proof
    assume e: "curr_running_txns (mgr st) = [] \<and>
      (\<forall>tc \<in> set (curr_running_workers (mgr st)). tc_curr_running_txns (threads st tc) = [])"
    then have "?S = {time (mgr st)}" by auto
    then have "Min ?S = Min {time (mgr st)}" by (rule arg_cong)
    then show "OldestTransactionStartTime st = time (mgr st)" by (simp only: eq Min_singleton)
  qed
  show ?thesis by (rule conjI[OF eq conjI[OF a conjI[OF b conjI[OF c d]]]])
qed

text \<open>
  In scenario S5 the watermark is 10, the oldest start time. Before the three
  transactions begin, with three workers registered and nothing running, it is the
  counter value 10.
\<close>

theorem OldestTransactionStartTime_min_witness:
  "12 \<in> set (curr_running_txns (mgr example_watermark)) \<and>
   OldestTransactionStartTime example_watermark \<le> 12 \<and>
   1 \<in> set (curr_running_workers (mgr example_watermark)) \<and>
   10 \<in> set (tc_curr_running_txns (threads example_watermark 1)) \<and>
   OldestTransactionStartTime example_watermark \<le> 10 \<and>
   OldestTransactionStartTime example_watermark = 10 \<and>
   curr_running_txns (mgr (example_counter 10)) = [] \<and>
   curr_running_workers (mgr (example_counter 10)) = [2, 1, 0] \<and>
   tc_curr_running_txns (threads (example_counter 10) 2) = [] \<and>
   tc_curr_running_txns (threads (example_counter 10) 1) = [] \<and>
   tc_curr_running_txns (threads (example_counter 10) 0) = [] \<and>
   OldestTransactionStartTime (example_counter 10) = 10"
proof -
  note T = OldestTransactionStartTime_min[of example_watermark]
  note F = OldestTransactionStartTime_min[of "example_counter 10"]
  have m1: "12 \<in> set (curr_running_txns (mgr example_watermark))"
    by (simp add: example_watermark_def example_counter_def eval_defs)
  have m2: "1 \<in> set (curr_running_workers (mgr example_watermark))"
    by (simp add: example_watermark_def example_counter_def eval_defs)
  have m3: "10 \<in> set (tc_curr_running_txns (threads example_watermark 1))"
    by (simp add: example_watermark_def example_counter_def eval_defs)
  have l1: "OldestTransactionStartTime example_watermark \<le> 12" using T m1 by blast
  have l2: "OldestTransactionStartTime example_watermark \<le> 10" using T m2 m3 by blast
  have "OldestTransactionStartTime example_watermark =
     Min (insert (time (mgr example_watermark))
            (set (curr_running_txns (mgr example_watermark)) \<union>
             (\<Union>tc \<in> set (curr_running_workers (mgr example_watermark)).
                set (tc_curr_running_txns (threads example_watermark tc)))))"
    using T by blast
  also have "\<dots> = 10" by (simp add: example_watermark_def example_counter_def eval_defs)
  finally have v: "OldestTransactionStartTime example_watermark = 10" .
  have q1: "curr_running_txns (mgr (example_counter 10)) = []"
    by (simp add: example_counter_def eval_defs)
  have q0: "curr_running_workers (mgr (example_counter 10)) = [2, 1, 0]"
    by (simp add: example_counter_def eval_defs)
  have w2: "tc_curr_running_txns (threads (example_counter 10) 2) = []"
    by (simp add: example_counter_def eval_defs)
  have w1: "tc_curr_running_txns (threads (example_counter 10) 1) = []"
    by (simp add: example_counter_def eval_defs)
  have w0: "tc_curr_running_txns (threads (example_counter 10) 0) = []"
    by (simp add: example_counter_def eval_defs)
  have q2: "\<forall>tc \<in> set (curr_running_workers (mgr (example_counter 10))).
      tc_curr_running_txns (threads (example_counter 10) tc) = []"
    using w2 w1 w0 by (simp add: q0)
  have tm: "time (mgr (example_counter 10)) = 10"
    by (simp add: example_counter_def)
  have "OldestTransactionStartTime (example_counter 10) = time (mgr (example_counter 10))"
    using F q1 q2 by blast
  then have q3: "OldestTransactionStartTime (example_counter 10) = 10"
    by (simp only: tm)
  show ?thesis by (intro conjI m1 l1 m2 m3 l2 v q1 q0 w2 w1 w0 q3)
qed

subsection \<open>The commit paths\<close>

text \<open>
  Claim C1, amended. \<^verbatim>\<open>Commit\<close> takes the read-only path when the undo buffer is empty
  and the updating path otherwise. The updating path draws the commit time, runs
  \<^verbatim>\<open>LogCommit\<close> and then stores the commit time into every record of the undo buffer;
  when \<^verbatim>\<open>Commit\<close> returns, every undo record of the transaction carries the commit
  time. \<^verbatim>\<open>LogCommit\<close> appends the commit record when logging is enabled; with logging
  disabled it appends nothing, sets \<^verbatim>\<open>log_processed_\<close> and calls the callback. The
  read-only path leaves all undo records alone. The commit latch itself has no
  counterpart in this sequential model.
\<close>

theorem Commit_paths:
  assumes "NDEBUG st \<or> start_time (txns st txn) \<in> set (running_set_of st (thread_context (txns st txn)))"
  shows "\<exists>st1 st'.
     (if UndoEmpty (undo_buffer (txns st txn))
      then ReadOnlyCommitCriticalSection st txn cb arg
      else UpdatingCommitCriticalSection st txn cb arg) = (time (mgr st), st1) \<and>
     Commit st txn cb arg = Inr (time (mgr st), st') \<and>
     st' = push_completed (fst (erase_running st1 (start_time (txns st txn)) (thread_context (txns st txn)))) txn \<and>
     time (mgr st') = time (mgr st) + 1 \<and>
     txn_id (txns st' txn) = time (mgr st) \<and>
     undo_buffer (txns st' txn) = undo_buffer (txns st txn) \<and>
     (UndoEmpty (undo_buffer (txns st txn)) \<longrightarrow> undo_records st' = undo_records st) \<and>
     (\<not> UndoEmpty (undo_buffer (txns st txn)) \<longrightarrow>
        st1 = fold (store_Timestamp (time (mgr st))) (undo_buffer (txns st txn))
                (LogCommit (snd (GetTimestamp st)) txn (time (mgr st)) cb arg) \<and>
        (\<forall>r \<in> set (undo_buffer (txns st' txn)). Timestamp (undo_records st' r) = time (mgr st)) \<and>
        (log_manager (mgr st) \<noteq> LOGGING_DISABLED \<longrightarrow>
           RedoLastRecord (redo_buffer (txns st' txn)) =
             Some (CommitLog \<lparr>cr_txn_begin = start_time (txns st txn), cr_commit_time = time (mgr st),
                     cr_callback = cb, cr_callback_arg = arg, cr_is_read_only = False,
                     cr_txn = txn\<rparr>)) \<and>
        (log_manager (mgr st) = LOGGING_DISABLED \<longrightarrow>
           records (redo_buffer (txns st' txn)) = records (redo_buffer (txns st txn)) \<and>
           log_processed (txns st' txn) \<and>
           callbacks_invoked st' = callbacks_invoked st @ [(cb, arg)]))"
proof -
  let ?p = "if UndoEmpty (undo_buffer (txns st txn))
      then ReadOnlyCommitCriticalSection st txn cb arg
      else UpdatingCommitCriticalSection st txn cb arg"
  let ?st1 = "commit_section st txn cb arg"
  let ?st' = "push_completed (fst (erase_running ?st1 (start_time (txns st txn)) (thread_context (txns st txn)))) txn"
  have p: "?p = (time (mgr st), ?st1)"
    by (simp add: commit_section_def ReadOnly_eq Updating_eq)
  have c: "Commit st txn cb arg = Inr (time (mgr st), ?st')"
    using assms by (auto simp: Commit_eq Let_def erase_running_ret)
  have t: "time (mgr ?st') = time (mgr st) + 1"
    by (simp add: push_completed_frame erase_running_frame commit_section_frame)
  have i: "txn_id (txns ?st' txn) = time (mgr st)"
    by (simp add: push_completed_frame erase_running_frame commit_section_frame)
  have u: "undo_buffer (txns ?st' txn) = undo_buffer (txns st txn)"
    by (simp add: push_completed_frame erase_running_frame commit_section_frame)
  have ro: "UndoEmpty (undo_buffer (txns st txn)) \<longrightarrow> undo_records ?st' = undo_records st"
    by (simp add: push_completed_frame erase_running_frame commit_section_def ReadOnly_eq LogCommit_frame)
  have up: "\<not> UndoEmpty (undo_buffer (txns st txn)) \<longrightarrow>
        ?st1 = fold (store_Timestamp (time (mgr st))) (undo_buffer (txns st txn))
                (LogCommit (snd (GetTimestamp st)) txn (time (mgr st)) cb arg) \<and>
        (\<forall>r \<in> set (undo_buffer (txns ?st' txn)). Timestamp (undo_records ?st' r) = time (mgr st)) \<and>
        (log_manager (mgr st) \<noteq> LOGGING_DISABLED \<longrightarrow>
           RedoLastRecord (redo_buffer (txns ?st' txn)) =
             Some (CommitLog \<lparr>cr_txn_begin = start_time (txns st txn), cr_commit_time = time (mgr st),
                     cr_callback = cb, cr_callback_arg = arg, cr_is_read_only = False,
                     cr_txn = txn\<rparr>)) \<and>
        (log_manager (mgr st) = LOGGING_DISABLED \<longrightarrow>
           records (redo_buffer (txns ?st' txn)) = records (redo_buffer (txns st txn)) \<and>
           log_processed (txns ?st' txn) \<and>
           callbacks_invoked ?st' = callbacks_invoked st @ [(cb, arg)])"
  proof
    assume ne: "\<not> UndoEmpty (undo_buffer (txns st txn))"
    then have ne': "undo_buffer (txns st txn) \<noteq> []" by (simp add: UndoEmpty_def)
    have s1: "?st1 = fold (store_Timestamp (time (mgr st))) (undo_buffer (txns st txn))
                (LogCommit (snd (GetTimestamp st)) txn (time (mgr st)) cb arg)"
      using ne by (simp add: commit_section_def Updating_eq GetTimestamp_def)
    have ts: "\<forall>r \<in> set (undo_buffer (txns ?st' txn)). Timestamp (undo_records ?st' r) = time (mgr st)"
      unfolding u by (simp add: push_completed_frame erase_running_frame s1 fold_store_records)
    have lg: "log_manager (mgr st) \<noteq> LOGGING_DISABLED \<longrightarrow>
           RedoLastRecord (redo_buffer (txns ?st' txn)) =
             Some (CommitLog \<lparr>cr_txn_begin = start_time (txns st txn), cr_commit_time = time (mgr st),
                     cr_callback = cb, cr_callback_arg = arg, cr_is_read_only = False,
                     cr_txn = txn\<rparr>)"
      using ne'
      by (simp add: push_completed_frame erase_running_frame s1 fold_store_frame GetTimestamp_def
            RedoLastRecord_def LogCommit_redo_enabled LOGGING_DISABLED_def)
    have ld: "log_manager (mgr st) = LOGGING_DISABLED \<longrightarrow>
           records (redo_buffer (txns ?st' txn)) = records (redo_buffer (txns st txn)) \<and>
           log_processed (txns ?st' txn) \<and>
           callbacks_invoked ?st' = callbacks_invoked st @ [(cb, arg)]"
      using LogCommit_redo_disabled[of "snd (GetTimestamp st)" txn "time (mgr st)" cb arg]
      by (simp add: push_completed_frame erase_running_frame s1 fold_store_frame GetTimestamp_def
            LOGGING_DISABLED_def)
    from s1 ts lg ld show "?st1 = fold (store_Timestamp (time (mgr st))) (undo_buffer (txns st txn))
                (LogCommit (snd (GetTimestamp st)) txn (time (mgr st)) cb arg) \<and>
        (\<forall>r \<in> set (undo_buffer (txns ?st' txn)). Timestamp (undo_records ?st' r) = time (mgr st)) \<and>
        (log_manager (mgr st) \<noteq> LOGGING_DISABLED \<longrightarrow>
           RedoLastRecord (redo_buffer (txns ?st' txn)) =
             Some (CommitLog \<lparr>cr_txn_begin = start_time (txns st txn), cr_commit_time = time (mgr st),
                     cr_callback = cb, cr_callback_arg = arg, cr_is_read_only = False,
                     cr_txn = txn\<rparr>)) \<and>
        (log_manager (mgr st) = LOGGING_DISABLED \<longrightarrow>
           records (redo_buffer (txns ?st' txn)) = records (redo_buffer (txns st txn)) \<and>
           log_processed (txns ?st' txn) \<and>
           callbacks_invoked ?st' = callbacks_invoked st @ [(cb, arg)])"
      by (intro conjI)
  qed
  show ?thesis
    apply (rule exI[where x = ?st1])
    apply (rule exI[where x = ?st'])
    apply (intro conjI p c refl t i u ro)
    apply (rule up)
    done
qed

subsection \<open>Rollback\<close>

lemma Rollback_null_table: "Table (undo_records st r) = None \<Longrightarrow> Rollback st txn r = Inr st"
  by (simp add: Rollback_def)

lemma Rollback_null_head:
  "Table (undo_records st r) = Some table \<Longrightarrow>
   AtomicallyReadVersionPtr (tables st table) (Slot (undo_records st r)) = None \<Longrightarrow>
   Rollback st txn r \<noteq> Inl (RuntimeError msg)"
  by (simp add: Rollback_def Let_def TERRIER_ASSERT_def)

lemma Rollback_other:
  "Table (undo_records st r) = Some table \<Longrightarrow>
   AtomicallyReadVersionPtr (tables st table) (Slot (undo_records st r)) = Some vp \<Longrightarrow>
   NDEBUG st \<or> Timestamp (undo_records st vp) = txn_id (txns st txn) \<Longrightarrow>
   Type (undo_records st vp) = OTHER_DELTA n \<Longrightarrow>
   Rollback st txn r = Inl (RuntimeError ''unexpected delta record type'')"
  by (auto simp: Rollback_def Let_def TERRIER_ASSERT_def)

lemma Rollback_known:
  assumes "Table (undo_records st r) = Some table"
    "AtomicallyReadVersionPtr (tables st table) (Slot (undo_records st r)) = Some vp"
    "Type (undo_records st vp) \<in> {UPDATE, INSERT, DELETE}"
  shows "Rollback st txn r \<noteq> Inl (RuntimeError msg)"
proof -
  have u: "Rollback_update_loop txn vp table (Slot (undo_records st r))
             [0 ..< NumColumns (Delta (undo_records st vp))] st \<noteq> Inl (RuntimeError msg)"
    using Rollback_update_loop_no_throw by (simp add: no_throw_def)
  have i: "DeallocateInsertedTupleIfVarlen st txn vp table \<noteq> Inl (RuntimeError msg)"
    using DeallocateInserted_loop_no_throw
    by (simp add: no_throw_def DeallocateInsertedTupleIfVarlen_def)
  from assms(3) consider "Type (undo_records st vp) = UPDATE" | "Type (undo_records st vp) = INSERT"
    | "Type (undo_records st vp) = DELETE" by auto
  then show ?thesis
  proof cases
    case 1
    then show ?thesis using assms(1,2) u
      by (auto simp: Rollback_def Let_def TERRIER_ASSERT_def split: sum.splits)
  next
    case 2
    then show ?thesis using assms(1,2) i
      by (auto simp: Rollback_def Let_def TERRIER_ASSERT_def split: sum.splits)
  next
    case 3
    then show ?thesis using assms(1,2)
      by (auto simp: Rollback_def Let_def TERRIER_ASSERT_def split: sum.splits)
  qed
qed

lemma DeltaRecordType_other: "k \<notin> {UPDATE, INSERT, DELETE} \<Longrightarrow> \<exists>n. k = OTHER_DELTA n"
  by (cases k) simp_all

text \<open>
  Claim C7. Where the assertion of \<^verbatim>\<open>Rollback\<close> does not fail, \<^verbatim>\<open>Rollback\<close> throws its
  runtime error exactly when the record's table is not null and the kind of the head
  version record of the slot is none of UPDATE, INSERT, DELETE. When the record's table
  is null it returns the state unchanged.
\<close>

theorem Rollback_throws_iff:
  assumes "NDEBUG st \<or> write_lock_held st txn record"
  shows "((\<exists>msg. Rollback st txn record = Inl (RuntimeError msg)) \<longleftrightarrow>
          (\<exists>table vp. Table (undo_records st record) = Some table \<and>
             AtomicallyReadVersionPtr (tables st table) (Slot (undo_records st record)) = Some vp \<and>
             Type (undo_records st vp) \<notin> {UPDATE, INSERT, DELETE})) \<and>
         (Table (undo_records st record) = None \<longrightarrow> Rollback st txn record = Inr st)"
proof (intro conjI iffI impI)
  assume "\<exists>msg. Rollback st txn record = Inl (RuntimeError msg)"
  then obtain msg where e: "Rollback st txn record = Inl (RuntimeError msg)" by blast
  then obtain table where t: "Table (undo_records st record) = Some table"
    by (cases "Table (undo_records st record)") (simp_all add: Rollback_null_table)
  from e obtain vp where
    v: "AtomicallyReadVersionPtr (tables st table) (Slot (undo_records st record)) = Some vp"
    using Rollback_null_head[OF t]
    by (cases "AtomicallyReadVersionPtr (tables st table) (Slot (undo_records st record))") auto
  have "Type (undo_records st vp) \<notin> {UPDATE, INSERT, DELETE}"
    using Rollback_known[OF t v] e by blast
  with t v show "\<exists>table vp. Table (undo_records st record) = Some table \<and>
             AtomicallyReadVersionPtr (tables st table) (Slot (undo_records st record)) = Some vp \<and>
             Type (undo_records st vp) \<notin> {UPDATE, INSERT, DELETE}" by blast
next
  assume "\<exists>table vp. Table (undo_records st record) = Some table \<and>
             AtomicallyReadVersionPtr (tables st table) (Slot (undo_records st record)) = Some vp \<and>
             Type (undo_records st vp) \<notin> {UPDATE, INSERT, DELETE}"
  then obtain table vp where t: "Table (undo_records st record) = Some table"
    and v: "AtomicallyReadVersionPtr (tables st table) (Slot (undo_records st record)) = Some vp"
    and k: "Type (undo_records st vp) \<notin> {UPDATE, INSERT, DELETE}" by blast
  from DeltaRecordType_other[OF k] obtain n where n: "Type (undo_records st vp) = OTHER_DELTA n" ..
  have "NDEBUG st \<or> Timestamp (undo_records st vp) = txn_id (txns st txn)"
    using assms t v by (auto simp: write_lock_held_def)
  from Rollback_other[OF t v this n]
  show "\<exists>msg. Rollback st txn record = Inl (RuntimeError msg)" by blast
next
  assume "Table (undo_records st record) = None"
  then show "Rollback st txn record = Inr st" by (rule Rollback_null_table)
qed

text \<open>
  An unknown kind throws, an UPDATE does not, and a record that was never installed is
  skipped.
\<close>

theorem Rollback_throws_iff_witness:
  "(NDEBUG (example_updating None (OTHER_DELTA 9) (Some 0)) \<or>
    write_lock_held (example_updating None (OTHER_DELTA 9) (Some 0)) 0 7) \<and>
   (\<exists>msg. Rollback (example_updating None (OTHER_DELTA 9) (Some 0)) 0 7 = Inl (RuntimeError msg)) \<and>
   (NDEBUG (example_updating None UPDATE (Some 0)) \<or>
    write_lock_held (example_updating None UPDATE (Some 0)) 0 7) \<and>
   \<not> (\<exists>msg. Rollback (example_updating None UPDATE (Some 0)) 0 7 = Inl (RuntimeError msg)) \<and>
   (NDEBUG (example_updating None UPDATE None) \<or>
    write_lock_held (example_updating None UPDATE None) 0 7) \<and>
   Table (undo_records (example_updating None UPDATE None) 7) = None \<and>
   Rollback (example_updating None UPDATE None) 0 7 = Inr (example_updating None UPDATE None)"
proof -
  let ?a = "example_updating None (OTHER_DELTA 9) (Some 0)"
  let ?b = "example_updating None UPDATE (Some 0)"
  let ?c = "example_updating None UPDATE None"
  have ha: "NDEBUG ?a \<or> write_lock_held ?a 0 7"
    by (simp add: example_updating_def write_lock_held_def AtomicallyReadVersionPtr_def eval_defs)
  have hb: "NDEBUG ?b \<or> write_lock_held ?b 0 7"
    by (simp add: example_updating_def write_lock_held_def AtomicallyReadVersionPtr_def eval_defs)
  have hc: "NDEBUG ?c \<or> write_lock_held ?c 0 7"
    by (simp add: example_updating_def write_lock_held_def AtomicallyReadVersionPtr_def eval_defs)
  have ra: "\<exists>table vp. Table (undo_records ?a 7) = Some table \<and>
             AtomicallyReadVersionPtr (tables ?a table) (Slot (undo_records ?a 7)) = Some vp \<and>
             Type (undo_records ?a vp) \<notin> {UPDATE, INSERT, DELETE}"
    by (simp add: example_updating_def AtomicallyReadVersionPtr_def eval_defs)
  have rb: "\<not> (\<exists>table vp. Table (undo_records ?b 7) = Some table \<and>
             AtomicallyReadVersionPtr (tables ?b table) (Slot (undo_records ?b 7)) = Some vp \<and>
             Type (undo_records ?b vp) \<notin> {UPDATE, INSERT, DELETE})"
    by (simp add: example_updating_def AtomicallyReadVersionPtr_def eval_defs)
  have tc: "Table (undo_records ?c 7) = None"
    by (simp add: example_updating_def eval_defs)
  have a: "\<exists>msg. Rollback ?a 0 7 = Inl (RuntimeError msg)"
    using Rollback_throws_iff[OF ha] ra by blast
  have b: "\<not> (\<exists>msg. Rollback ?b 0 7 = Inl (RuntimeError msg))"
    using Rollback_throws_iff[OF hb] rb by blast
  have c: "Rollback ?c 0 7 = Inr ?c"
    using Rollback_throws_iff[OF hc] tc by blast
  show ?thesis by (intro conjI ha a hb b hc tc c)
qed

subsection \<open>The last update of an aborted transaction\<close>

lemma upd_txn_loose_twice:
  "upd_txn (upd_txn st t (\<lambda>T. T\<lparr>loose_ptrs := loose_ptrs T @ xs\<rparr>)) t
     (\<lambda>T. T\<lparr>loose_ptrs := loose_ptrs T @ ys\<rparr>) =
   upd_txn st t (\<lambda>T. T\<lparr>loose_ptrs := loose_ptrs T @ xs @ ys\<rparr>)"
  by (simp add: upd_txn_def)

lemma upd_txn_loose_nil: "upd_txn st t (\<lambda>T. T\<lparr>loose_ptrs := loose_ptrs T @ []\<rparr>) = st"
  by (simp add: upd_txn_def)

lemma upd_txn_ident: "upd_txn st t (\<lambda>T. T) = st"
  by (simp add: upd_txn_def)

lemma GCLastUpdate_loop_eq:
  assumes "NDEBUG st \<or> (\<forall>i \<in> set is. col_fresh layout (RedoDelta redo ! i))"
  shows "GCLastUpdate_loop txn redo layout is st =
           Inr (upd_txn st txn (\<lambda>T. T\<lparr>loose_ptrs := loose_ptrs T @
                  concat (map (\<lambda>i. col_varlen layout (RedoDelta redo ! i)) is)\<rparr>))"
  using assms
proof (induction "is" arbitrary: st)
  case Nil
  then show ?case by (simp add: upd_txn_ident)
next
  case (Cons i "is")
  let ?col = "RedoDelta redo ! i"
  let ?st1 = "upd_txn st txn (\<lambda>T. T\<lparr>loose_ptrs := loose_ptrs T @ col_varlen layout ?col\<rparr>)"
  have ok: "NDEBUG st \<or> col_fresh layout ?col" using Cons.prems by auto
  have step: "(if IsVarlen layout (ColumnIds (RedoDelta redo) i)
            then push_varlen st txn (RowAccessWithNullCheck (RedoDelta redo) i)
            else Inr st) = Inr ?st1"
    using ok
    by (auto simp: push_varlen_def col_varlen_def col_fresh_def ColumnIds_def RowAccessWithNullCheck_def
          TERRIER_ASSERT_def upd_txn_ident split: option.splits)
  have nd: "NDEBUG ?st1 = NDEBUG st" by (simp add: upd_txn_def)
  have pre: "NDEBUG ?st1 \<or> (\<forall>i \<in> set is. col_fresh layout (RedoDelta redo ! i))"
    using Cons.prems nd by auto
  show ?case
    by (simp add: Let_def step Cons.IH[OF pre] upd_txn_loose_twice)
qed

lemma concat_map_nth: "concat (map (\<lambda>i. f (xs ! i)) [0 ..< length xs]) = concat (map f xs)"
proof -
  have "map (\<lambda>i. f (xs ! i)) [0 ..< length xs] = map f (map ((!) xs) [0 ..< length xs])"
    by simp
  also have "\<dots> = map f xs" by (simp only: map_nth)
  finally show ?thesis by simp
qed

text \<open>
  Claim C8, amended. Provided that a last redo record that is a \<^verbatim>\<open>REDO\<close> comes with a
  last undo record (and, where assertions are compiled in, that the function's two
  assertions hold), \<^verbatim>\<open>GCLastUpdateOnAbort\<close> appends to \<^verbatim>\<open>loose_ptrs_\<close> the content
  pointers of the non-null variable-length columns of the last redo record's delta when
  that record exists, is a \<^verbatim>\<open>REDO\<close>, and the last undo record's table is null; in every
  other case it returns the state unchanged.
\<close>

theorem GCLastUpdateOnAbort_pushes:
  assumes "last_update_checks st txn"
  shows "(\<forall>redo u. RedoLastRecord (redo_buffer (txns st txn)) = Some (RedoLog redo) \<and>
                  UndoLastRecord (undo_buffer (txns st txn)) = Some u \<and>
                  Table (undo_records st u) = None \<longrightarrow>
            GCLastUpdateOnAbort st txn =
              Inr (upd_txn st txn (\<lambda>T. T\<lparr>loose_ptrs := loose_ptrs T @
                     redo_varlens (tables st (GetDataTable redo)) (RedoDelta redo)\<rparr>))) \<and>
         (\<not> last_update_uninstalled st txn \<longrightarrow> GCLastUpdateOnAbort st txn = Inr st) \<and>
         (last_update_uninstalled st txn \<longleftrightarrow>
            (\<exists>redo u. RedoLastRecord (redo_buffer (txns st txn)) = Some (RedoLog redo) \<and>
                  UndoLastRecord (undo_buffer (txns st txn)) = Some u \<and>
                  Table (undo_records st u) = None))"
proof (intro conjI allI impI)
  fix redo u
  assume a: "RedoLastRecord (redo_buffer (txns st txn)) = Some (RedoLog redo) \<and>
                  UndoLastRecord (undo_buffer (txns st txn)) = Some u \<and>
                  Table (undo_records st u) = None"
  with assms have c: "NDEBUG st \<or> (GetTupleSlot redo = Slot (undo_records st u) \<and>
      list_all (col_fresh (tables st (GetDataTable redo))) (RedoDelta redo))"
    by (simp add: last_update_checks_def)
  then have pre: "NDEBUG st \<or> (\<forall>i \<in> set [0 ..< NumColumns (RedoDelta redo)].
      col_fresh (tables st (GetDataTable redo)) (RedoDelta redo ! i))"
    by (auto simp: list_all_iff NumColumns_def)
  show "GCLastUpdateOnAbort st txn =
              Inr (upd_txn st txn (\<lambda>T. T\<lparr>loose_ptrs := loose_ptrs T @
                     redo_varlens (tables st (GetDataTable redo)) (RedoDelta redo)\<rparr>))"
  proof -
    have loop: "GCLastUpdate_loop txn redo (tables st (GetDataTable redo))
                  [0 ..< NumColumns (RedoDelta redo)] st =
                Inr (upd_txn st txn (\<lambda>T. T\<lparr>loose_ptrs := loose_ptrs T @
                     redo_varlens (tables st (GetDataTable redo)) (RedoDelta redo)\<rparr>))"
      unfolding GCLastUpdate_loop_eq[OF pre]
      by (simp add: redo_varlens_def NumColumns_def concat_map_nth)
    show ?thesis using a c
      by (auto simp: GCLastUpdateOnAbort_def Let_def TERRIER_ASSERT_def loop)
  qed
next
  assume "\<not> last_update_uninstalled st txn"
  then show "GCLastUpdateOnAbort st txn = Inr st"
    using assms
    by (auto simp: GCLastUpdateOnAbort_def last_update_uninstalled_def last_update_checks_def
          Let_def TERRIER_ASSERT_def split: option.splits LogRecord.splits)
next
  show "last_update_uninstalled st txn \<longleftrightarrow>
            (\<exists>redo u. RedoLastRecord (redo_buffer (txns st txn)) = Some (RedoLog redo) \<and>
                  UndoLastRecord (undo_buffer (txns st txn)) = Some u \<and>
                  Table (undo_records st u) = None)"
    by (auto simp: last_update_uninstalled_def split: option.splits LogRecord.splits)
qed

text \<open>
  With an uninstalled last update the pointer 99 is pushed; with an installed one nothing
  changes.
\<close>

theorem GCLastUpdateOnAbort_pushes_witness:
  "last_update_checks (example_updating None UPDATE None) 0 \<and>
   last_update_uninstalled (example_updating None UPDATE None) 0 \<and>
   GCLastUpdateOnAbort (example_updating None UPDATE None) 0 =
     Inr (upd_txn (example_updating None UPDATE None) 0
            (\<lambda>T. T\<lparr>loose_ptrs := loose_ptrs T @ [99]\<rparr>)) \<and>
   last_update_checks (example_updating None UPDATE (Some 0)) 0 \<and>
   \<not> last_update_uninstalled (example_updating None UPDATE (Some 0)) 0 \<and>
   GCLastUpdateOnAbort (example_updating None UPDATE (Some 0)) 0 =
     Inr (example_updating None UPDATE (Some 0))"
proof -
  let ?a = "example_updating None UPDATE None"
  let ?b = "example_updating None UPDATE (Some 0)"
  let ?redo = "\<lparr>GetTupleSlot = 4, GetDataTable = 0,
                 RedoDelta = [(1, Some \<lparr>Content = 99, IsGathered = False\<rparr>), (2, None),
                              (3, Some \<lparr>Content = 98, IsGathered = False\<rparr>)]\<rparr>"
  have ha: "last_update_checks ?a 0"
    by (simp add: last_update_checks_def col_fresh_def example_updating_def eval_defs)
  have hb: "last_update_checks ?b 0"
    by (simp add: last_update_checks_def col_fresh_def example_updating_def eval_defs)
  have ua: "last_update_uninstalled ?a 0"
    by (simp add: last_update_uninstalled_def example_updating_def eval_defs)
  have ub: "\<not> last_update_uninstalled ?b 0"
    by (simp add: last_update_uninstalled_def example_updating_def eval_defs)
  have ca: "RedoLastRecord (redo_buffer (txns ?a 0)) = Some (RedoLog ?redo) \<and>
            UndoLastRecord (undo_buffer (txns ?a 0)) = Some 7 \<and>
            Table (undo_records ?a 7) = None"
    by (simp add: example_updating_def eval_defs)
  have v: "redo_varlens (tables ?a (GetDataTable ?redo)) (RedoDelta ?redo) = [99]"
    by (simp add: redo_varlens_def col_varlen_def example_updating_def eval_defs)
  have "GCLastUpdateOnAbort ?a 0 =
          Inr (upd_txn ?a 0 (\<lambda>T. T\<lparr>loose_ptrs := loose_ptrs T @
                 redo_varlens (tables ?a (GetDataTable ?redo)) (RedoDelta ?redo)\<rparr>))"
    using GCLastUpdateOnAbort_pushes[OF ha] ca by blast
  then have ra: "GCLastUpdateOnAbort ?a 0 =
     Inr (upd_txn ?a 0 (\<lambda>T. T\<lparr>loose_ptrs := loose_ptrs T @ [99]\<rparr>))"
    by (simp only: v)
  have rb: "GCLastUpdateOnAbort ?b 0 = Inr ?b"
    using GCLastUpdateOnAbort_pushes[OF hb] ub by blast
  show ?thesis by (intro conjI ha ua ra hb ub rb)
qed

subsection \<open>Finalizing the redo buffer\<close>

text \<open>
  Claim C10. \<^verbatim>\<open>LogCommit\<close> leaves the redo buffer finalized with \<^verbatim>\<open>true\<close> whether logging
  is enabled or not, and so does every \<^verbatim>\<open>Commit\<close>; with logging disabled the buffer's
  records stay as they are, \<^verbatim>\<open>log_processed_\<close> is set and the callback is called.
  \<^verbatim>\<open>Abort\<close> leaves the buffer finalized with \<^verbatim>\<open>false\<close>.
\<close>

theorem Commit_publishes_Abort_discards:
  assumes "NDEBUG st \<or> start_time (txns st txn) \<in> set (running_set_of st (thread_context (txns st txn)))"
  shows "finalized (redo_buffer (txns (LogCommit st txn ct cb arg) txn)) = Some True \<and>
         (\<exists>st'. Commit st txn cb arg = Inr (time (mgr st), st') \<and>
            finalized (redo_buffer (txns st' txn)) = Some True \<and>
            (log_manager (mgr st) = LOGGING_DISABLED \<longrightarrow>
               records (redo_buffer (txns st' txn)) = records (redo_buffer (txns st txn)) \<and>
               log_processed (txns st' txn) \<and>
               callbacks_invoked st' = callbacks_invoked st @ [(cb, arg)])) \<and>
         (\<forall>st''. Abort st txn = Inr st'' \<longrightarrow>
            finalized (redo_buffer (txns st'' txn)) = Some False)"
proof -
  let ?g = "st\<lparr>mgr := (mgr st)\<lparr>time := time (mgr st) + 1\<rparr>\<rparr>"
  let ?st1 = "commit_section st txn cb arg"
  let ?st' = "push_completed (fst (erase_running ?st1 (start_time (txns st txn)) (thread_context (txns st txn)))) txn"
  have c: "Commit st txn cb arg = Inr (time (mgr st), ?st')"
    using assms by (auto simp: Commit_eq Let_def erase_running_ret)
  have f: "finalized (redo_buffer (txns ?st' txn)) = Some True"
    by (simp add: push_completed_frame erase_running_frame commit_section_frame)
  have tx: "txns ?st' txn = txns (LogCommit ?g txn (time (mgr st)) cb arg) txn"
    by (simp add: push_completed_frame erase_running_frame commit_section_def ReadOnly_eq
          Updating_eq fold_store_frame)
  have cbs: "callbacks_invoked ?st' = callbacks_invoked (LogCommit ?g txn (time (mgr st)) cb arg)"
    by (simp add: push_completed_frame erase_running_frame commit_section_def ReadOnly_eq
          Updating_eq fold_store_frame)
  have d: "log_manager (mgr st) = LOGGING_DISABLED \<longrightarrow>
               records (redo_buffer (txns ?st' txn)) = records (redo_buffer (txns st txn)) \<and>
               log_processed (txns ?st' txn) \<and>
               callbacks_invoked ?st' = callbacks_invoked st @ [(cb, arg)]"
    unfolding tx cbs using LogCommit_redo_disabled[of ?g txn "time (mgr st)" cb arg]
    by (simp add: LOGGING_DISABLED_def)
  have a: "\<forall>st''. Abort st txn = Inr st'' \<longrightarrow> finalized (redo_buffer (txns st'' txn)) = Some False"
    using Abort_Inr(3) by blast
  have e: "\<exists>st'. Commit st txn cb arg = Inr (time (mgr st), st') \<and>
            finalized (redo_buffer (txns st' txn)) = Some True \<and>
            (log_manager (mgr st) = LOGGING_DISABLED \<longrightarrow>
               records (redo_buffer (txns st' txn)) = records (redo_buffer (txns st txn)) \<and>
               log_processed (txns st' txn) \<and>
               callbacks_invoked st' = callbacks_invoked st @ [(cb, arg)])"
    by (rule exI[where x = ?st']) (intro conjI c f d)
  show ?thesis by (intro conjI LogCommit_finalized e a)
qed

text \<open>
  With logging disabled, a commit publishes the redo buffer and an abort of the same
  transaction discards it.
\<close>

theorem Commit_publishes_Abort_discards_witness:
  "(NDEBUG (example_updating None UPDATE None) \<or>
    start_time (txns (example_updating None UPDATE None) 0)
      \<in> set (running_set_of (example_updating None UPDATE None)
                (thread_context (txns (example_updating None UPDATE None) 0)))) \<and>
   log_manager (mgr (example_updating None UPDATE None)) = LOGGING_DISABLED \<and>
   (\<exists>st'. Commit (example_updating None UPDATE None) 0 3 4 = Inr (1, st') \<and>
      finalized (redo_buffer (txns st' 0)) = Some True \<and>
      length (records (redo_buffer (txns st' 0))) = 1 \<and>
      log_processed (txns st' 0) \<and> callbacks_invoked st' = [(3, 4)]) \<and>
   Abort (example_updating None UPDATE None) 0 =
     Inr (projr (Abort (example_updating None UPDATE None) 0)) \<and>
   finalized (redo_buffer (txns (projr (Abort (example_updating None UPDATE None) 0)) 0)) = Some False"
proof -
  let ?ex = "example_updating None UPDATE None"
  have h: "NDEBUG ?ex \<or> start_time (txns ?ex 0) \<in> set (running_set_of ?ex (thread_context (txns ?ex 0)))"
    by (simp add: example_updating_def eval_defs)
  have lg: "log_manager (mgr ?ex) = LOGGING_DISABLED"
    by (simp add: example_updating_def eval_defs)
  have v: "time (mgr ?ex) = 1" "length (records (redo_buffer (txns ?ex 0))) = 1"
    "callbacks_invoked ?ex = []"
    by (simp_all add: example_updating_def eval_defs)
  note T = Commit_publishes_Abort_discards[OF h, of 0 3 4]
  from T obtain st' where
    c: "Commit ?ex 0 3 4 = Inr (time (mgr ?ex), st')" and
    f: "finalized (redo_buffer (txns st' 0)) = Some True" and
    d: "log_manager (mgr ?ex) = LOGGING_DISABLED \<longrightarrow>
               records (redo_buffer (txns st' 0)) = records (redo_buffer (txns ?ex 0)) \<and>
               log_processed (txns st' 0) \<and>
               callbacks_invoked st' = callbacks_invoked ?ex @ [(3, 4)]"
    by blast
  have "Commit ?ex 0 3 4 = Inr (1, st') \<and>
      finalized (redo_buffer (txns st' 0)) = Some True \<and>
      length (records (redo_buffer (txns st' 0))) = 1 \<and>
      log_processed (txns st' 0) \<and> callbacks_invoked st' = [(3, 4)]"
    using c f d lg by (simp add: v)
  then have e: "\<exists>st'. Commit ?ex 0 3 4 = Inr (1, st') \<and>
      finalized (redo_buffer (txns st' 0)) = Some True \<and>
      length (records (redo_buffer (txns st' 0))) = 1 \<and>
      log_processed (txns st' 0) \<and> callbacks_invoked st' = [(3, 4)]" ..
  have "\<not> isl (Abort ?ex 0)"
    by (simp add: example_updating_def eval_defs)
  then have a: "Abort ?ex 0 = Inr (projr (Abort ?ex 0))" by (cases "Abort ?ex 0") simp_all
  have fa: "finalized (redo_buffer (txns (projr (Abort ?ex 0)) 0)) = Some False"
    using T a by blast
  show ?thesis by (intro conjI h lg e a fa)
qed

subsection \<open>Timestamps along a run\<close>

lemma step_frame:
  assumes s: "step x st = Inr st'" and ok: "storage_ok x"
  shows "txn_alloc st \<le> txn_alloc st'"
    "t < txn_alloc st \<Longrightarrow> start_time (txns st' t) = start_time (txns st t)"
    "gc_enabled (mgr st') = gc_enabled (mgr st)"
    "completed_txns (mgr st') =
       (if gc_enabled (mgr st) then rev (completed_op x) @ completed_txns (mgr st)
        else completed_txns (mgr st))"
proof -
  have "txn_alloc st \<le> txn_alloc st' \<and>
    (t < txn_alloc st \<longrightarrow> start_time (txns st' t) = start_time (txns st t)) \<and>
    gc_enabled (mgr st') = gc_enabled (mgr st) \<and>
    completed_txns (mgr st') =
       (if gc_enabled (mgr st) then rev (completed_op x) @ completed_txns (mgr st)
        else completed_txns (mgr st))"
  proof (cases x)
    case (BeginOp tc)
    with s obtain u where b: "BeginTransaction st tc = Inr (u, st')" by (auto split: sum.splits)
    note B = BeginTransaction_Inr[OF b]
    show ?thesis using BeginOp by (simp add: B(2,5,6) B(4) B(1))
  next
    case (CommitOp u cb arg)
    with s obtain ts where c: "Commit st u cb arg = Inr (ts, st')" by (auto split: sum.splits)
    from Commit_Inr(3)[OF c] show ?thesis using CommitOp by (simp add: finishes_def)
  next
    case (AbortOp u)
    with s have a: "Abort st u = Inr st'" by simp
    from Abort_Inr(2)[OF a] show ?thesis using AbortOp by (simp add: finishes_def)
  next
    case GetTimestampOp
    with s show ?thesis by (auto simp: GetTimestamp_def)
  next
    case (StorageOp f)
    with s ok have "keeps_bookkeeping st st'" by (auto simp: storage_only_def)
    then show ?thesis using StorageOp by (simp add: keeps_bookkeeping_def)
  qed
  then show "txn_alloc st \<le> txn_alloc st'"
    "t < txn_alloc st \<Longrightarrow> start_time (txns st' t) = start_time (txns st t)"
    "gc_enabled (mgr st') = gc_enabled (mgr st)"
    "completed_txns (mgr st') =
       (if gc_enabled (mgr st) then rev (completed_op x) @ completed_txns (mgr st)
        else completed_txns (mgr st))"
    by simp_all
qed

lemma exec_time:
  "exec xs st = Inr st' \<Longrightarrow> \<forall>x \<in> set xs. storage_ok x \<Longrightarrow>
   time (mgr st') = time (mgr st) + of_nat (draws xs)"
proof (induction xs arbitrary: st)
  case Nil then show ?case by (simp add: draws_def)
next
  case (Cons x xs)
  from Cons.prems(1) obtain st1 where s: "step x st = Inr st1" and e: "exec xs st1 = Inr st'"
    by (auto split: sum.splits)
  have ok: "storage_ok x" "\<forall>x \<in> set xs. storage_ok x" using Cons.prems(2) by simp_all
  show ?case using Cons.IH[OF e ok(2)] step_time[OF s ok(1)] by (simp add: draws_def)
qed

lemma exec_start_time:
  "exec xs st = Inr st' \<Longrightarrow> \<forall>x \<in> set xs. storage_ok x \<Longrightarrow> t < txn_alloc st \<Longrightarrow>
   start_time (txns st' t) = start_time (txns st t)"
proof (induction xs arbitrary: st)
  case Nil then show ?case by simp
next
  case (Cons x xs)
  from Cons.prems(1) obtain st1 where s: "step x st = Inr st1" and e: "exec xs st1 = Inr st'"
    by (auto split: sum.splits)
  have ok: "storage_ok x" "\<forall>x \<in> set xs. storage_ok x" using Cons.prems(2) by simp_all
  have lt: "t < txn_alloc st1" using step_frame(1)[OF s ok(1)] Cons.prems(3) by simp
  show ?case using Cons.IH[OF e ok(2) lt] step_frame(2)[OF s ok(1) Cons.prems(3)] by simp
qed

lemma exec_completed:
  "exec xs st = Inr st' \<Longrightarrow> \<forall>x \<in> set xs. storage_ok x \<Longrightarrow> gc_enabled (mgr st) \<Longrightarrow>
   completed_txns (mgr st') = rev (completion_order xs) @ completed_txns (mgr st)"
proof (induction xs arbitrary: st)
  case Nil then show ?case by (simp add: completion_order_def)
next
  case (Cons x xs)
  from Cons.prems(1) obtain st1 where s: "step x st = Inr st1" and e: "exec xs st1 = Inr st'"
    by (auto split: sum.splits)
  have ok: "storage_ok x" "\<forall>x \<in> set xs. storage_ok x" using Cons.prems(2) by simp_all
  have gc: "gc_enabled (mgr st1)" using step_frame(3)[OF s ok(1)] Cons.prems(3) by simp
  show ?case
    using Cons.IH[OF e ok(2) gc] step_frame(4)[OF s ok(1)] Cons.prems(3)
    by (simp add: completion_order_def)
qed

lemma GetTimestamp_funpow:
  "((\<lambda>s. snd (GetTimestamp s)) ^^ n) st = st\<lparr>mgr := (mgr st)\<lparr>time := time (mgr st) + of_nat n\<rparr>\<rparr>"
  by (induction n) (simp_all add: GetTimestamp_def add.assoc add.commute)

lemma counter_reaches_max:
  "((\<lambda>s. snd (GetTimestamp s)) ^^ (2 ^ 64 - 1)) (example_counter 0) = example_counter (- 1)"
  by (simp add: GetTimestamp_funpow example_counter_def)

text \<open>
  Claim C4, amended. A transaction begun by \<^verbatim>\<open>BeginTransaction\<close> and committed by
  \<^verbatim>\<open>Commit\<close> after any run in between has a start time below its commit time, on
  either commit path, provided the counter does not wrap around between the begin and
  the commit.
\<close>

theorem start_before_commit:
  assumes b: "BeginTransaction st0 tc = Inr (txn, st1)"
    and ok: "\<forall>x \<in> set ops. storage_ok x"
    and e: "exec ops st1 = Inr st2"
    and c: "Commit st2 txn cb arg = Inr (ts, st3)"
    and nw: "unat (time (mgr st0)) + 1 + draws ops < 2 ^ 64"
  shows "start_time (txns st2 txn) = time (mgr st0) \<and>
         ts = time (mgr st0) + 1 + of_nat (draws ops) \<and>
         start_time (txns st2 txn) < ts"
proof -
  note B = BeginTransaction_Inr[OF b]
  have lt: "txn < txn_alloc st1" by (simp add: B(1,2))
  have "start_time (txns st1 txn) = time (mgr st0)"
    by (simp add: B(4) TransactionContext_new_def)
  then have s: "start_time (txns st2 txn) = time (mgr st0)"
    using exec_start_time[OF e ok lt] by simp
  have t: "ts = time (mgr st0) + 1 + of_nat (draws ops)"
    using Commit_Inr(1)[OF c] exec_time[OF e ok] by (simp add: B(3))
  have "unat ts = unat (time (mgr st0)) + (1 + draws ops)"
    unfolding t add.assoc using nw
    by (subst unat_add_small[of "time (mgr st0)" "1 + draws ops", simplified]) simp_all
  then have "unat (time (mgr st0)) < unat ts" by simp
  then have "start_time (txns st2 txn) < ts" by (simp add: s word_less_nat_alt)
  with s t show ?thesis by simp
qed

subsection \<open>Concrete runs\<close>

lemma Inr_projr: "\<not> isl X \<Longrightarrow> X = Inr (projr X)"
  by (cases X) simp_all

lemma Inr_projr_pair: "\<not> isl X \<Longrightarrow> fst (projr X) = a \<Longrightarrow> X = Inr (a, snd (projr X))"
  by (cases X) auto

lemma example_ops_storage_ok: "\<forall>x \<in> set example_ops. storage_ok x"
  by (simp add: example_ops_def storage_only_def keeps_bookkeeping_def upd_txn_def)

lemmas example_defs = example_counter_def example_begun_def example_before_commit_def
  example_wrapped_def example_completed_def example_completions_def example_ops_def
  example_live_ops_def example_live_def

text \<open>
  A transaction started at 5 that writes, and commits at 8 on the updating path.
\<close>

theorem start_before_commit_witness:
  "BeginTransaction (example_counter 5) None = Inr (0, example_begun) \<and>
   list_all storage_ok example_ops \<and>
   exec example_ops example_begun = Inr example_before_commit \<and>
   Commit example_before_commit 0 3 4 = Inr (8, snd (projr (Commit example_before_commit 0 3 4))) \<and>
   unat (time (mgr (example_counter 5))) + 1 + draws example_ops < 2 ^ 64 \<and>
   \<not> UndoEmpty (undo_buffer (txns example_before_commit 0)) \<and>
   start_time (txns example_before_commit 0) = 5 \<and>
   start_time (txns example_before_commit 0) < 8"
proof -
  have b: "BeginTransaction (example_counter 5) None = Inr (0, example_begun)"
    unfolding example_begun_def
    by (rule Inr_projr_pair) (simp_all add: example_counter_def eval_defs)
  have e: "exec example_ops example_begun = Inr example_before_commit"
    unfolding example_before_commit_def
    by (rule Inr_projr) (simp add: example_defs eval_defs)
  have c: "Commit example_before_commit 0 3 4 = Inr (8, snd (projr (Commit example_before_commit 0 3 4)))"
    by (rule Inr_projr_pair) (simp_all add: example_defs eval_defs)
  have nw: "unat (time (mgr (example_counter 5))) + 1 + draws example_ops < 2 ^ 64"
    by (simp add: example_defs eval_defs draws_def)
  have ne: "\<not> UndoEmpty (undo_buffer (txns example_before_commit 0))"
    by (simp add: example_defs eval_defs)
  have t5: "time (mgr (example_counter 5)) = 5" by (simp add: example_defs eval_defs)
  note R = start_before_commit[OF b example_ops_storage_ok e c nw, unfolded t5]
  have s: "start_time (txns example_before_commit 0) = 5" using R by blast
  have l: "start_time (txns example_before_commit 0) < 8" using R by blast
  have la: "list_all storage_ok example_ops"
    using example_ops_storage_ok by (simp only: list_all_iff)
  show ?thesis by (intro conjI b la e c nw ne s l)
qed

text \<open>
  Claim C4 as stated fails where the counter wraps around: a transaction begun at the
  last counter value \<open>2^64 - 1\<close> commits at 0.
\<close>

theorem start_after_commit_at_wraparound:
  "BeginTransaction (example_counter (- 1)) None = Inr (0, example_wrapped) \<and>
   start_time (txns example_wrapped 0) = - 1 \<and>
   Commit example_wrapped 0 3 4 = Inr (0, snd (projr (Commit example_wrapped 0 3 4))) \<and>
   \<not> start_time (txns example_wrapped 0) < fst (projr (Commit example_wrapped 0 3 4))"
proof -
  have b: "BeginTransaction (example_counter (- 1)) None = Inr (0, example_wrapped)"
    unfolding example_wrapped_def
    by (rule Inr_projr_pair) (simp_all add: example_counter_def eval_defs)
  have s: "start_time (txns example_wrapped 0) = - 1"
    by (simp add: example_defs eval_defs)
  have c: "Commit example_wrapped 0 3 4 = Inr (0, snd (projr (Commit example_wrapped 0 3 4)))"
    by (rule Inr_projr_pair) (simp_all add: example_defs eval_defs)
  have n: "\<not> start_time (txns example_wrapped 0) < fst (projr (Commit example_wrapped 0 3 4))"
    by (simp add: example_defs eval_defs)
  show ?thesis by (intro conjI b s c n)
qed

text \<open>
  Claim C6, amended. With GC enabled, \<^verbatim>\<open>CompletedTransactionsForGC\<close> yields the
  transactions completed by a run newest first, in the reverse of the order in which
  their \<^verbatim>\<open>Commit\<close> and \<^verbatim>\<open>Abort\<close> calls completed, in front of what the queue held
  before.
\<close>

theorem completed_txns_newest_first:
  assumes "gc_enabled (mgr st0)" and "\<forall>x \<in> set ops. storage_ok x" and "exec ops st0 = Inr st"
  shows "CompletedTransactionsForGC st =
           Inr (rev (completion_order ops) @ completed_txns (mgr st0),
                st\<lparr>mgr := (mgr st)\<lparr>completed_txns := []\<rparr>\<rparr>)"
  using exec_completed[OF assms(3,2,1)]
  by (simp add: CompletedTransactionsForGC_def TERRIER_ASSERT_def Let_def)

text \<open>
  Transaction 0 commits, then transaction 1 aborts: the queue handed to the GC is 1, 0.
\<close>

theorem completed_txns_newest_first_witness:
  "gc_enabled (mgr (fresh_system True None False)) \<and>
   list_all storage_ok example_completions \<and>
   exec example_completions (fresh_system True None False) = Inr example_completed \<and>
   CompletedTransactionsForGC example_completed =
     Inr ([1, 0], example_completed\<lparr>mgr := (mgr example_completed)\<lparr>completed_txns := []\<rparr>\<rparr>)"
proof -
  have g: "gc_enabled (mgr (fresh_system True None False))" by (simp add: eval_defs)
  have ok: "\<forall>x \<in> set example_completions. storage_ok x" by (simp add: example_completions_def)
  have e: "exec example_completions (fresh_system True None False) = Inr example_completed"
    unfolding example_completed_def
    by (rule Inr_projr) (simp add: example_defs eval_defs)
  have o: "rev (completion_order example_completions) @
             completed_txns (mgr (fresh_system True None False)) = [1, 0]"
    by (simp add: example_completions_def completion_order_def eval_defs)
  from completed_txns_newest_first[OF g ok e]
  have r: "CompletedTransactionsForGC example_completed =
     Inr ([1, 0], example_completed\<lparr>mgr := (mgr example_completed)\<lparr>completed_txns := []\<rparr>\<rparr>)"
    by (simp only: o)
  have la: "list_all storage_ok example_completions"
    using ok by (simp only: list_all_iff)
  show ?thesis by (intro conjI g la e r)
qed

text \<open>
  Claim C6 as stated fails: after transaction 0 and then transaction 1 have completed,
  the queue handed to the GC starts with transaction 1.
\<close>

theorem completed_txns_not_in_completion_order:
  "exec example_completions (fresh_system True None False) = Inr example_completed \<and>
   completion_order example_completions = [0, 1] \<and>
   fst (projr (CompletedTransactionsForGC example_completed)) = [1, 0] \<and>
   fst (projr (CompletedTransactionsForGC example_completed)) \<noteq> completion_order example_completions"
proof -
  have e: "exec example_completions (fresh_system True None False) = Inr example_completed"
    unfolding example_completed_def
    by (rule Inr_projr) (simp add: example_defs eval_defs)
  have o: "completion_order example_completions = [0, 1]"
    by (simp add: example_completions_def completion_order_def)
  have q: "fst (projr (CompletedTransactionsForGC example_completed)) = [1, 0]"
    by (simp add: example_defs eval_defs)
  have n: "fst (projr (CompletedTransactionsForGC example_completed)) \<noteq> completion_order example_completions"
    by (simp only: o q) simp
  show ?thesis by (intro conjI e o q n)
qed

text \<open>
  Claim C5, amended. Take a run of \<^verbatim>\<open>BeginTransaction\<close>, \<^verbatim>\<open>Commit\<close>, \<^verbatim>\<open>Abort\<close>,
  \<^verbatim>\<open>GetTimestamp\<close> and storage steps that starts with nothing running, commits and
  aborts only live transactions, and does not wrap the counter around. Afterwards the start time of
  every live transaction is in the running set of the thread context it was begun with
  (the global one for none) and in no other running set, and a \<^verbatim>\<open>Commit\<close> or \<^verbatim>\<open>Abort\<close>
  of it removes the start time from that set and changes no other running set.
\<close>

theorem live_start_time_in_own_running_set:
  assumes quiet: "\<forall>tc. running_set_of st0 tc = []"
    and ok: "client_ok ops st0 []"
    and e: "exec ops st0 = Inr st"
    and nw: "unat (time (mgr st0)) + draws ops < 2 ^ 64"
  shows "\<forall>p \<in> set (live_after ops st0 []).
           thread_context (txns st (fst p)) = snd p \<and>
           start_time (txns st (fst p)) \<in> set (running_set_of st (snd p)) \<and>
           (\<forall>tc'. tc' \<noteq> snd p \<longrightarrow> start_time (txns st (fst p)) \<notin> set (running_set_of st tc')) \<and>
           (\<forall>cb arg ts st'. Commit st (fst p) cb arg = Inr (ts, st') \<longrightarrow>
              (\<forall>tc'. running_set_of st' tc' =
                 (if tc' = snd p
                  then removeAll (start_time (txns st (fst p))) (running_set_of st tc')
                  else running_set_of st tc'))) \<and>
           (\<forall>st'. Abort st (fst p) = Inr st' \<longrightarrow>
              (\<forall>tc'. running_set_of st' tc' =
                 (if tc' = snd p
                  then removeAll (start_time (txns st (fst p))) (running_set_of st tc')
                  else running_set_of st tc')))"
proof
  fix p assume p: "p \<in> set (live_after ops st0 [])"
  have inv: "Inv st (live_after ops st0 [])"
    by (rule Inv_exec[OF Inv_quiet[OF quiet] ok e nw])
  have tc: "thread_context (txns st (fst p)) = snd p" using InvD1[OF inv p] by simp
  note one = Inv_exactly_one[OF inv p]
  have cm: "\<forall>cb arg ts st'. Commit st (fst p) cb arg = Inr (ts, st') \<longrightarrow>
              (\<forall>tc'. running_set_of st' tc' =
                 (if tc' = snd p
                  then removeAll (start_time (txns st (fst p))) (running_set_of st tc')
                  else running_set_of st tc'))"
  proof (intro allI impI)
    fix cb arg ts st' tc'
    assume "Commit st (fst p) cb arg = Inr (ts, st')"
    from Commit_Inr(3)[OF this] show "running_set_of st' tc' =
                 (if tc' = snd p
                  then removeAll (start_time (txns st (fst p))) (running_set_of st tc')
                  else running_set_of st tc')"
      by (simp add: finishes_def tc)
  qed
  have ab: "\<forall>st'. Abort st (fst p) = Inr st' \<longrightarrow>
              (\<forall>tc'. running_set_of st' tc' =
                 (if tc' = snd p
                  then removeAll (start_time (txns st (fst p))) (running_set_of st tc')
                  else running_set_of st tc'))"
  proof (intro allI impI)
    fix st' tc'
    assume "Abort st (fst p) = Inr st'"
    from Abort_Inr(2)[OF this] show "running_set_of st' tc' =
                 (if tc' = snd p
                  then removeAll (start_time (txns st (fst p))) (running_set_of st tc')
                  else running_set_of st tc')"
      by (simp add: finishes_def tc)
  qed
  from tc one cm ab show "thread_context (txns st (fst p)) = snd p \<and>
           start_time (txns st (fst p)) \<in> set (running_set_of st (snd p)) \<and>
           (\<forall>tc'. tc' \<noteq> snd p \<longrightarrow> start_time (txns st (fst p)) \<notin> set (running_set_of st tc')) \<and>
           (\<forall>cb arg ts st'. Commit st (fst p) cb arg = Inr (ts, st') \<longrightarrow>
              (\<forall>tc'. running_set_of st' tc' =
                 (if tc' = snd p
                  then removeAll (start_time (txns st (fst p))) (running_set_of st tc')
                  else running_set_of st tc'))) \<and>
           (\<forall>st'. Abort st (fst p) = Inr st' \<longrightarrow>
              (\<forall>tc'. running_set_of st' tc' =
                 (if tc' = snd p
                  then removeAll (start_time (txns st (fst p))) (running_set_of st tc')
                  else running_set_of st tc')))"
    by blast
qed

text \<open>
  Three transactions begin, on no thread context and on thread contexts 1 and 2, and the
  first aborts.
\<close>

theorem live_start_time_in_own_running_set_witness:
  "(\<forall>tc. running_set_of (example_workers True None False) tc = []) \<and>
   client_ok example_live_ops (example_workers True None False) [] \<and>
   exec example_live_ops (example_workers True None False) = Inr example_live \<and>
   unat (time (mgr (example_workers True None False))) + draws example_live_ops < 2 ^ 64 \<and>
   live_after example_live_ops (example_workers True None False) [] = [(2, Some 2), (1, Some 1)] \<and>
   start_time (txns example_live 1) \<in> set (running_set_of example_live (Some 1)) \<and>
   start_time (txns example_live 1) \<notin> set (running_set_of example_live None) \<and>
   start_time (txns example_live 1) \<notin> set (running_set_of example_live (Some 2))"
proof -
  let ?f = "example_workers True None False"
  have q: "\<forall>tc. running_set_of ?f tc = []"
    by (simp add: eval_defs split: option.split)
  have ok: "client_ok example_live_ops ?f []"
    by (simp add: example_defs eval_defs)
  have e: "exec example_live_ops ?f = Inr example_live"
    unfolding example_live_def
    by (rule Inr_projr) (simp add: example_defs eval_defs)
  have nw: "unat (time (mgr ?f)) + draws example_live_ops < 2 ^ 64"
    by (simp add: example_defs eval_defs draws_def)
  have l: "live_after example_live_ops ?f [] = [(2, Some 2), (1, Some 1)]"
    by (simp add: example_defs eval_defs)
  note T = live_start_time_in_own_running_set[OF q ok e nw, unfolded l]
  have m: "(1, Some 1) \<in> set [(2, Some 2), (1::nat, Some (1::nat))]" by simp
  from bspec[OF T m]
  have a: "start_time (txns example_live 1) \<in> set (running_set_of example_live (Some 1))"
    and n: "\<forall>tc'. tc' \<noteq> Some 1 \<longrightarrow> start_time (txns example_live 1) \<notin> set (running_set_of example_live tc')"
    by simp_all
  from n have n1: "start_time (txns example_live 1) \<notin> set (running_set_of example_live None)"
    and n2: "start_time (txns example_live 1) \<notin> set (running_set_of example_live (Some 2))"
    by simp_all
  show ?thesis by (intro conjI q ok e nw l a n1 n2)
qed

subsection \<open>A run that wraps the counter around\<close>

lemma pair_step:
  assumes "time (mgr st) \<notin> set (curr_running_txns (mgr st))"
  shows "\<exists>st'. exec [BeginOp None, AbortOp (txn_alloc st)] st = Inr st' \<and> pair_related 1 st st'"
  using assms by (simp add: pair_related_def eval_defs)

lemma pairs_run:
  assumes "\<forall>k < n. time (mgr st) + of_nat k \<notin> set (curr_running_txns (mgr st))"
    and "\<forall>p \<in> set L. fst p < txn_alloc st"
  shows "\<exists>st'. pair_related n st st' \<and>
           exec (begin_abort_pairs (txn_alloc st) n rest) st = exec rest st' \<and>
           client_ok (begin_abort_pairs (txn_alloc st) n rest) st L = client_ok rest st' L \<and>
           live_after (begin_abort_pairs (txn_alloc st) n rest) st L = live_after rest st' L"
  using assms
proof (induction n arbitrary: st)
  case 0
  have "pair_related 0 st st" by (simp add: pair_related_def)
  then show ?case by auto
next
  case (Suc n)
  have t0: "time (mgr st) \<notin> set (curr_running_txns (mgr st))" using Suc.prems(1)[rule_format, of 0] by simp
  from pair_step[OF t0] obtain st1 where
    e1: "exec [BeginOp None, AbortOp (txn_alloc st)] st = Inr st1" and r1: "pair_related 1 st st1"
    by blast
  from e1 obtain sb where sb: "step (BeginOp None) st = Inr sb"
    and sa: "step (AbortOp (txn_alloc st)) sb = Inr st1"
    by (auto split: sum.splits)
  have al: "txn_alloc st1 = Suc (txn_alloc st)" using r1 by (simp add: pair_related_def)
  have pre1: "\<forall>k < n. time (mgr st1) + of_nat k \<notin> set (curr_running_txns (mgr st1))"
  proof (intro allI impI)
    fix k assume "k < n"
    then have "Suc k < Suc n" by simp
    from Suc.prems(1)[rule_format, OF this]
    have "time (mgr st) + of_nat (Suc k) \<notin> set (curr_running_txns (mgr st))" .
    then show "time (mgr st1) + of_nat k \<notin> set (curr_running_txns (mgr st1))"
      using r1 by (simp add: pair_related_def ac_simps)
  qed
  have pre2: "\<forall>p \<in> set L. fst p < txn_alloc st1" using Suc.prems(2) al by auto
  from Suc.IH[OF pre1 pre2] obtain st' where
    r2: "pair_related n st1 st'" and
    x: "exec (begin_abort_pairs (txn_alloc st1) n rest) st1 = exec rest st'" and
    c: "client_ok (begin_abort_pairs (txn_alloc st1) n rest) st1 L = client_ok rest st' L" and
    l: "live_after (begin_abort_pairs (txn_alloc st1) n rest) st1 L = live_after rest st' L"
    by blast
  have keep: "filter (\<lambda>p. fst p \<noteq> txn_alloc st) L = L"
    using Suc.prems(2) by (auto simp: filter_id_conv)
  have r: "pair_related (Suc n) st st'"
    using r1 r2 by (auto simp: pair_related_def ac_simps)
  have x': "exec (begin_abort_pairs (txn_alloc st) (Suc n) rest) st = exec rest st'"
    using sb sa x by (simp add: al)
  have c': "client_ok (begin_abort_pairs (txn_alloc st) (Suc n) rest) st L = client_ok rest st' L"
    using sb sa c by (simp add: al keep)
  have l': "live_after (begin_abort_pairs (txn_alloc st) (Suc n) rest) st L = live_after rest st' L"
    using sb sa l by (simp add: al keep)
  from r x' c' l' show ?case by blast
qed

lemma word64_of_nat_nonzero: "0 < n \<Longrightarrow> n < 2 ^ 64 \<Longrightarrow> (of_nat n :: 64 word) \<noteq> 0"
proof
  assume n: "0 < n" "n < 2 ^ 64" and z: "(of_nat n :: 64 word) = 0"
  have "unat (of_nat n :: 64 word) = n" using n(2) by (simp add: unat_of_nat)
  with z n(1) show False by simp
qed

lemma wraparound_run:
  "\<exists>st. exec wraparound_ops (example_workers False None False) = Inr st \<and>
        client_ok wraparound_ops (example_workers False None False) [] \<and>
        live_after wraparound_ops (example_workers False None False) [] = [(2 ^ 64, Some 0), (0, None)] \<and>
        thread_context (txns st 0) = None \<and> start_time (txns st 0) = 0 \<and>
        running_set_of st None = [0] \<and> running_set_of st (Some 0) = [0]"
proof -
  let ?f = "example_workers False None False"
  let ?rest = "[BeginOp (Some 0)]"
  obtain sb where sb: "step (BeginOp None) ?f = Inr sb"
    and sbp: "time (mgr sb) = 1" "txn_alloc sb = 1" "curr_running_txns (mgr sb) = [0]"
      "threads sb = threads ?f" "NDEBUG sb = False"
      "txns sb 0 = TransactionContext_new 0 INT64_MIN 0 None None"
  proof -
    have "\<not> isl (step (BeginOp None) ?f)" by (simp add: eval_defs)
    then have "step (BeginOp None) ?f = Inr (projr (step (BeginOp None) ?f))" by (rule Inr_projr)
    moreover have "time (mgr (projr (step (BeginOp None) ?f))) = 1"
      "txn_alloc (projr (step (BeginOp None) ?f)) = 1"
      "curr_running_txns (mgr (projr (step (BeginOp None) ?f))) = [0]"
      "threads (projr (step (BeginOp None) ?f)) = threads ?f"
      "NDEBUG (projr (step (BeginOp None) ?f)) = False"
      "txns (projr (step (BeginOp None) ?f)) 0 = TransactionContext_new 0 INT64_MIN 0 None None"
      by (simp_all add: eval_defs)
    ultimately show ?thesis using that by blast
  qed
  have pre1: "\<forall>k < 2 ^ 64 - 1. time (mgr sb) + of_nat k \<notin> set (curr_running_txns (mgr sb))"
  proof (intro allI impI)
    fix k :: nat assume k: "k < 2 ^ 64 - 1"
    have "(of_nat (Suc k) :: 64 word) \<noteq> 0"
      by (rule word64_of_nat_nonzero) (use k in simp_all)
    then show "time (mgr sb) + of_nat k \<notin> set (curr_running_txns (mgr sb))"
      by (simp add: sbp)
  qed
  have pre2: "\<forall>p \<in> set [(0::nat, None :: thread_ref option)]. fst p < txn_alloc sb"
    by (simp add: sbp)
  from pairs_run[OF pre1 pre2, of ?rest] obtain st2 where
    r: "pair_related (2 ^ 64 - 1) sb st2" and
    x: "exec (begin_abort_pairs (txn_alloc sb) (2 ^ 64 - 1) ?rest) sb = exec ?rest st2" and
    c: "client_ok (begin_abort_pairs (txn_alloc sb) (2 ^ 64 - 1) ?rest) sb [(0, None)] =
          client_ok ?rest st2 [(0, None)]" and
    l: "live_after (begin_abort_pairs (txn_alloc sb) (2 ^ 64 - 1) ?rest) sb [(0, None)] =
          live_after ?rest st2 [(0, None)]"
    by blast
  have w: "(1::64 word) + of_nat (2 ^ 64 - 1) = 0" by simp
  have s2: "time (mgr st2) = 0" "txn_alloc st2 = 2 ^ 64" "curr_running_txns (mgr st2) = [0]"
    "threads st2 = threads ?f" "NDEBUG st2 = False"
    "txns st2 0 = TransactionContext_new 0 INT64_MIN 0 None None"
    using r w by (simp_all add: pair_related_def sbp)
  have "\<exists>st3. step (BeginOp (Some 0)) st2 = Inr st3 \<and>
          thread_context (txns st3 0) = None \<and> start_time (txns st3 0) = 0 \<and>
          running_set_of st3 None = [0] \<and> running_set_of st3 (Some 0) = [0]"
    by (simp add: s2 eval_defs)
  then obtain st3 where s3: "step (BeginOp (Some 0)) st2 = Inr st3"
    and p3: "thread_context (txns st3 0) = None" "start_time (txns st3 0) = 0"
      "running_set_of st3 None = [0]" "running_set_of st3 (Some 0) = [0]"
    by blast
  have e: "exec wraparound_ops ?f = Inr st3"
    using sb x s3 by (simp add: wraparound_ops_def sbp)
  have ok: "client_ok wraparound_ops ?f []"
    using sb c s3 by (simp add: wraparound_ops_def sbp eval_defs)
  have lv: "live_after wraparound_ops ?f [] = [(2 ^ 64, Some 0), (0, None)]"
    using sb l s3 by (simp add: wraparound_ops_def sbp s2 eval_defs)
  from e ok lv p3 show ?thesis by blast
qed

text \<open>
  Claim C5 as stated fails once the counter has wrapped around: transaction 0, begun
  with no thread context at time 0, is still live when the counter is back at 0 and a
  transaction begun on thread context 0 gets the same start time. The start time of
  transaction 0 is then in the global running set and in that of thread context 0.
\<close>

theorem live_start_time_in_two_sets_after_wraparound:
  "client_ok wraparound_ops (example_workers False None False) [] \<and>
   exec wraparound_ops (example_workers False None False) = Inr example_after_wraparound \<and>
   (0, None) \<in> set (live_after wraparound_ops (example_workers False None False) []) \<and>
   start_time (txns example_after_wraparound 0) \<in> set (running_set_of example_after_wraparound None) \<and>
   start_time (txns example_after_wraparound 0)
     \<in> set (running_set_of example_after_wraparound (Some 0))"
proof -
  from wraparound_run obtain st where
    e: "exec wraparound_ops (example_workers False None False) = Inr st" and
    ok: "client_ok wraparound_ops (example_workers False None False) []" and
    lv: "live_after wraparound_ops (example_workers False None False) [] = [(2 ^ 64, Some 0), (0, None)]" and
    p: "start_time (txns st 0) = 0" "running_set_of st None = [0]" "running_set_of st (Some 0) = [0]"
    by blast
  have st: "example_after_wraparound = st" by (simp add: example_after_wraparound_def e)
  have m: "(0, None) \<in> set (live_after wraparound_ops (example_workers False None False) [])"
    by (simp add: lv)
  have a: "start_time (txns example_after_wraparound 0) \<in> set (running_set_of example_after_wraparound None)"
    by (simp add: st p)
  have b: "start_time (txns example_after_wraparound 0) \<in> set (running_set_of example_after_wraparound (Some 0))"
    by (simp add: st p)
  have e': "exec wraparound_ops (example_workers False None False) = Inr example_after_wraparound"
    by (simp add: st e)
  show ?thesis by (intro conjI ok e' m a b)
qed

subsection \<open>The timestamps issued along a run\<close>

lemma issued_op_time:
  assumes s: "step x st = Inr st'"
  shows "issued_op x st = replicate (draws_op x) (time (mgr st))"
proof (cases x)
  case (BeginOp tc)
  with s obtain t where b: "BeginTransaction st tc = Inr (t, st')" by (auto split: sum.splits)
  show ?thesis using BeginOp b
    by (simp add: BeginTransaction_Inr(4)[OF b] TransactionContext_new_def)
next
  case (CommitOp t cb arg)
  with s obtain ts where c: "Commit st t cb arg = Inr (ts, st')" by (auto split: sum.splits)
  show ?thesis using CommitOp c by (simp add: Commit_Inr(1)[OF c])
next
  case (AbortOp t) then show ?thesis by simp
next
  case GetTimestampOp then show ?thesis by (simp add: GetTimestamp_def)
next
  case (StorageOp f) then show ?thesis by simp
qed

lemma issued_bounds:
  "exec xs st = Inr st' \<Longrightarrow> \<forall>x \<in> set xs. storage_ok x \<Longrightarrow>
   unat (time (mgr st)) + draws xs < 2 ^ 64 \<Longrightarrow> t \<in> set (issued xs st) \<Longrightarrow>
   unat (time (mgr st)) \<le> unat t \<and> unat t < unat (time (mgr st'))"
proof (induction xs arbitrary: st)
  case Nil then show ?case by simp
next
  case (Cons x xs)
  from Cons.prems(1) obtain st1 where s: "step x st = Inr st1" and e: "exec xs st1 = Inr st'"
    by (auto split: sum.splits)
  have ok: "storage_ok x" "\<forall>x \<in> set xs. storage_ok x" using Cons.prems(2) by simp_all
  have nw1: "unat (time (mgr st)) + draws_op x < 2 ^ 64" using Cons.prems(3) by (simp add: draws_def)
  have tm1: "unat (time (mgr st1)) = unat (time (mgr st)) + draws_op x"
    using step_time[OF s ok(1)] nw1 by (simp add: unat_add_small)
  have nw2: "unat (time (mgr st1)) + draws xs < 2 ^ 64" using Cons.prems(3) tm1 by (simp add: draws_def)
  have tm2: "unat (time (mgr st')) = unat (time (mgr st1)) + draws xs"
    using exec_time[OF e ok(2)] nw2 by (simp add: unat_add_small)
  from Cons.prems(4) s have "t \<in> set (issued_op x st) \<or> t \<in> set (issued xs st1)" by simp
  then show ?case
  proof
    assume "t \<in> set (issued_op x st)"
    then have "t = time (mgr st) \<and> 0 < draws_op x" by (auto simp: issued_op_time[OF s])
    then show ?thesis using tm1 tm2 by simp
  next
    assume "t \<in> set (issued xs st1)"
    from Cons.IH[OF e ok(2) nw2 this] show ?thesis using tm1 by simp
  qed
qed

lemma exec_GetTimestamps:
  "exec (replicate n GetTimestampOp) st =
     Inr (st\<lparr>mgr := (mgr st)\<lparr>time := time (mgr st) + of_nat n\<rparr>\<rparr>)"
  by (induction n arbitrary: st) (simp_all add: GetTimestamp_def ac_simps)

text \<open>
  Claim C3, amended. A call of \<^verbatim>\<open>BeginTransaction\<close> that is not stopped by its assertion
  returns a context whose start time \<open>s\<close> is the counter value and whose id is
  \<open>s + INT64_MIN\<close>, that is \<open>(s + 2^63) mod 2^64\<close>. For \<open>s < 2^63\<close> this is \<open>s\<close> with bit 63
  set and it is above \<open>s\<close>; and it is above every timestamp that \<^verbatim>\<open>BeginTransaction\<close>,
  \<^verbatim>\<open>Commit\<close> and \<^verbatim>\<open>GetTimestamp\<close> have issued along any run that leads to the state of the
  call without wrapping the counter around. Those timestamps are all below \<open>s\<close>.
\<close>

theorem BeginTransaction_txn_id:
  assumes "NDEBUG st \<or> time (mgr st) \<notin> set (running_set_of st tc)"
  shows "\<exists>txn st'. BeginTransaction st tc = Inr (txn, st') \<and>
           start_time (txns st' txn) = time (mgr st) \<and>
           txn_id (txns st' txn) = time (mgr st) + INT64_MIN \<and>
           unat (txn_id (txns st' txn)) = (unat (time (mgr st)) + 2 ^ 63) mod 2 ^ 64 \<and>
           (time (mgr st) < 2 ^ 63 \<longrightarrow>
              txn_id (txns st' txn) = time (mgr st) OR 2 ^ 63 \<and>
              time (mgr st) < txn_id (txns st' txn) \<and>
              (\<forall>st0 ops. exec ops st0 = Inr st \<and> (\<forall>x \<in> set ops. storage_ok x) \<and>
                   unat (time (mgr st0)) + draws ops < 2 ^ 64 \<longrightarrow>
                   (\<forall>t \<in> set (issued ops st0). t < time (mgr st) \<and> t < txn_id (txns st' txn))))"
proof -
  from BeginTransaction_total[OF assms] obtain st' where
    b: "BeginTransaction st tc = Inr (txn_alloc st, st')" by blast
  note B = BeginTransaction_Inr[OF b]
  let ?s = "time (mgr st)"
  have st: "start_time (txns st' (txn_alloc st)) = ?s"
    and id: "txn_id (txns st' (txn_alloc st)) = ?s + 2 ^ 63"
    by (simp_all add: B(4) TransactionContext_new_def INT64_MIN_eq)
  have u: "unat (?s + 2 ^ 63) = (unat ?s + 2 ^ 63) mod 2 ^ 64"
    by (simp add: unat_word_ariths)
  have run: "\<And>st0 ops t. exec ops st0 = Inr st \<Longrightarrow> \<forall>x \<in> set ops. storage_ok x \<Longrightarrow>
      unat (time (mgr st0)) + draws ops < 2 ^ 64 \<Longrightarrow> t \<in> set (issued ops st0) \<Longrightarrow> t < ?s"
  proof -
    fix st0 ops t
    assume "exec ops st0 = Inr st" "\<forall>x \<in> set ops. storage_ok x"
      "unat (time (mgr st0)) + draws ops < 2 ^ 64" "t \<in> set (issued ops st0)"
    from issued_bounds[OF this] show "t < ?s" by (simp add: word_less_nat_alt)
  qed
  have o: "?s < 2 ^ 63 \<longrightarrow> ?s + 2 ^ 63 = ?s OR 2 ^ 63 \<and> ?s < ?s + 2 ^ 63 \<and>
      (\<forall>st0 ops. exec ops st0 = Inr st \<and> (\<forall>x \<in> set ops. storage_ok x) \<and>
           unat (time (mgr st0)) + draws ops < 2 ^ 64 \<longrightarrow>
           (\<forall>t \<in> set (issued ops st0). t < ?s \<and> t < ?s + 2 ^ 63))"
  proof
    assume lt: "?s < 2 ^ 63"
    have 1: "?s + 2 ^ 63 = ?s OR 2 ^ 63" using lt by (rule bit63)
    have 2: "?s < ?s + 2 ^ 63" using high_bit_lt[OF lt order_refl] .
    have 3: "\<forall>st0 ops. exec ops st0 = Inr st \<and> (\<forall>x \<in> set ops. storage_ok x) \<and>
           unat (time (mgr st0)) + draws ops < 2 ^ 64 \<longrightarrow>
           (\<forall>t \<in> set (issued ops st0). t < ?s \<and> t < ?s + 2 ^ 63)"
    proof (intro allI impI ballI)
      fix st0 ops t
      assume a: "exec ops st0 = Inr st \<and> (\<forall>x \<in> set ops. storage_ok x) \<and>
           unat (time (mgr st0)) + draws ops < 2 ^ 64" and t: "t \<in> set (issued ops st0)"
      from a t have l: "t < ?s" using run by blast
      then have "t \<le> ?s" by simp
      from high_bit_lt[OF lt this] l show "t < ?s \<and> t < ?s + 2 ^ 63" by simp
    qed
    from 1 2 3 show "?s + 2 ^ 63 = ?s OR 2 ^ 63 \<and> ?s < ?s + 2 ^ 63 \<and>
      (\<forall>st0 ops. exec ops st0 = Inr st \<and> (\<forall>x \<in> set ops. storage_ok x) \<and>
           unat (time (mgr st0)) + draws ops < 2 ^ 64 \<longrightarrow>
           (\<forall>t \<in> set (issued ops st0). t < ?s \<and> t < ?s + 2 ^ 63))"
      by (intro conjI)
  qed
  have "BeginTransaction st tc = Inr (txn_alloc st, st') \<and>
           start_time (txns st' (txn_alloc st)) = ?s \<and>
           txn_id (txns st' (txn_alloc st)) = ?s + INT64_MIN \<and>
           unat (txn_id (txns st' (txn_alloc st))) = (unat ?s + 2 ^ 63) mod 2 ^ 64 \<and>
           (?s < 2 ^ 63 \<longrightarrow>
              txn_id (txns st' (txn_alloc st)) = ?s OR 2 ^ 63 \<and>
              ?s < txn_id (txns st' (txn_alloc st)) \<and>
              (\<forall>st0 ops. exec ops st0 = Inr st \<and> (\<forall>x \<in> set ops. storage_ok x) \<and>
                   unat (time (mgr st0)) + draws ops < 2 ^ 64 \<longrightarrow>
                   (\<forall>t \<in> set (issued ops st0). t < ?s \<and> t < txn_id (txns st' (txn_alloc st)))))"
    using b st u o by (simp only: id INT64_MIN_eq)
  then show ?thesis by blast
qed

text \<open>
  After the counter has issued 0, 1 and 2 from its initial value, a transaction begins
  on thread context 1 at 3; its id \<open>2^63 + 3\<close> is above all four.
\<close>

theorem BeginTransaction_txn_id_witness:
  "(NDEBUG example_issued \<or> time (mgr example_issued) \<notin> set (running_set_of example_issued (Some 2))) \<and>
   time (mgr (example_workers True None False)) = 0 \<and>
   exec example_issue_ops (example_workers True None False) = Inr example_issued \<and>
   list_all storage_ok example_issue_ops \<and>
   unat (time (mgr (example_workers True None False))) + draws example_issue_ops < 2 ^ 64 \<and>
   issued example_issue_ops (example_workers True None False) = [0, 1, 2] \<and>
   time (mgr example_issued) = 3 \<and>
   time (mgr example_issued) < 2 ^ 63 \<and>
   (\<exists>txn st'. BeginTransaction example_issued (Some 2) = Inr (txn, st') \<and>
      start_time (txns st' txn) = 3 \<and>
      txn_id (txns st' txn) = 3 + INT64_MIN \<and>
      unat (txn_id (txns st' txn)) = 2 ^ 63 + 3 \<and>
      txn_id (txns st' txn) = 3 OR 2 ^ 63 \<and>
      0 < txn_id (txns st' txn) \<and> 1 < txn_id (txns st' txn) \<and> 2 < txn_id (txns st' txn) \<and>
      3 < txn_id (txns st' txn))"
proof -
  let ?f = "example_workers True None False"
  have h: "NDEBUG example_issued \<or> time (mgr example_issued) \<notin> set (running_set_of example_issued (Some 2))"
    by (simp add: example_issued_def example_issue_ops_def eval_defs)
  have z: "time (mgr ?f) = 0" by (simp add: eval_defs)
  have e: "exec example_issue_ops ?f = Inr example_issued"
    unfolding example_issued_def
    by (rule Inr_projr) (simp add: example_issue_ops_def eval_defs)
  have ok: "\<forall>x \<in> set example_issue_ops. storage_ok x" by (simp add: example_issue_ops_def)
  have la: "list_all storage_ok example_issue_ops" using ok by (simp only: list_all_iff)
  have nw: "unat (time (mgr ?f)) + draws example_issue_ops < 2 ^ 64"
    by (simp add: example_issue_ops_def eval_defs draws_def)
  have i: "issued example_issue_ops ?f = [0, 1, 2]"
    by (simp add: example_issue_ops_def eval_defs)
  have t3: "time (mgr example_issued) = 3"
    by (simp add: example_issued_def example_issue_ops_def eval_defs)
  have lt: "time (mgr example_issued) < 2 ^ 63" by (simp add: t3)
  from BeginTransaction_txn_id[OF h] obtain txn st' where
    b: "BeginTransaction example_issued (Some 2) = Inr (txn, st')" and
    s: "start_time (txns st' txn) = time (mgr example_issued)" and
    d: "txn_id (txns st' txn) = time (mgr example_issued) + INT64_MIN" and
    u: "unat (txn_id (txns st' txn)) = (unat (time (mgr example_issued)) + 2 ^ 63) mod 2 ^ 64" and
    o: "time (mgr example_issued) < 2 ^ 63 \<longrightarrow>
          txn_id (txns st' txn) = time (mgr example_issued) OR 2 ^ 63 \<and>
          time (mgr example_issued) < txn_id (txns st' txn) \<and>
          (\<forall>st0 ops. exec ops st0 = Inr example_issued \<and> (\<forall>x \<in> set ops. storage_ok x) \<and>
               unat (time (mgr st0)) + draws ops < 2 ^ 64 \<longrightarrow>
               (\<forall>t \<in> set (issued ops st0).
                  t < time (mgr example_issued) \<and> t < txn_id (txns st' txn)))"
    by blast
  from o lt have o1: "txn_id (txns st' txn) = time (mgr example_issued) OR 2 ^ 63"
    and o2: "time (mgr example_issued) < txn_id (txns st' txn)"
    and o3: "\<forall>st0 ops. exec ops st0 = Inr example_issued \<and> (\<forall>x \<in> set ops. storage_ok x) \<and>
               unat (time (mgr st0)) + draws ops < 2 ^ 64 \<longrightarrow>
               (\<forall>t \<in> set (issued ops st0).
                  t < time (mgr example_issued) \<and> t < txn_id (txns st' txn))"
    by blast+
  from o3 e ok nw have "\<forall>t \<in> set (issued example_issue_ops ?f). t < txn_id (txns st' txn)"
    by blast
  then have all: "0 < txn_id (txns st' txn)" "1 < txn_id (txns st' txn)" "2 < txn_id (txns st' txn)"
    unfolding i by simp_all
  have s3: "start_time (txns st' txn) = 3" using s by (simp only: t3)
  have d3: "txn_id (txns st' txn) = 3 + INT64_MIN" using d by (simp only: t3)
  have u3: "unat (txn_id (txns st' txn)) = 2 ^ 63 + 3" using u unfolding t3 by simp
  have o13: "txn_id (txns st' txn) = 3 OR 2 ^ 63" using o1 by (simp only: t3)
  have o23: "3 < txn_id (txns st' txn)" using o2 by (simp only: t3)
  have "BeginTransaction example_issued (Some 2) = Inr (txn, st') \<and>
      start_time (txns st' txn) = 3 \<and>
      txn_id (txns st' txn) = 3 + INT64_MIN \<and>
      unat (txn_id (txns st' txn)) = 2 ^ 63 + 3 \<and>
      txn_id (txns st' txn) = 3 OR 2 ^ 63 \<and>
      0 < txn_id (txns st' txn) \<and> 1 < txn_id (txns st' txn) \<and> 2 < txn_id (txns st' txn) \<and>
      3 < txn_id (txns st' txn)"
    by (intro conjI b s3 d3 u3 o13 all o23)
  then have ex: "\<exists>txn st'. BeginTransaction example_issued (Some 2) = Inr (txn, st') \<and>
      start_time (txns st' txn) = 3 \<and>
      txn_id (txns st' txn) = 3 + INT64_MIN \<and>
      unat (txn_id (txns st' txn)) = 2 ^ 63 + 3 \<and>
      txn_id (txns st' txn) = 3 OR 2 ^ 63 \<and>
      0 < txn_id (txns st' txn) \<and> 1 < txn_id (txns st' txn) \<and> 2 < txn_id (txns st' txn) \<and>
      3 < txn_id (txns st' txn)"
    by blast
  show ?thesis by (intro conjI h z e la nw i t3 lt ex)
qed

text \<open>
  Claim C3 as stated fails where the counter wraps around. From its initial value the
  counter issues \<open>2^64 - 1\<close> timestamps, then a transaction begins at the last value
  \<open>2^64 - 1\<close>, and while it is running the next transaction begins at 0: its id \<open>2^63\<close> is
  below the start time \<open>2^64 - 1\<close> that the counter has issued. The id of the first
  transaction is \<open>2^63 - 1\<close>, its start time with the high bit cleared.
\<close>

theorem txn_id_below_issued_timestamp_after_wraparound:
  "exec (replicate (2 ^ 64 - 1) GetTimestampOp) (example_counter 0) = Inr (example_counter (- 1)) \<and>
   exec [BeginOp None] (example_counter (- 1)) = Inr example_wrapped \<and>
   issued [BeginOp None] (example_counter (- 1)) = [- 1] \<and>
   - 1 \<in> set (running_set_of example_wrapped None) \<and>
   txn_id (txns example_wrapped 0) = 2 ^ 63 - 1 \<and>
   txn_id (txns example_wrapped 0) \<noteq> start_time (txns example_wrapped 0) OR 2 ^ 63 \<and>
   BeginTransaction example_wrapped (Some 0) = Inr (1, example_begun_after_wraparound) \<and>
   start_time (txns example_begun_after_wraparound 1) = 0 \<and>
   start_time (txns example_begun_after_wraparound 1) < 2 ^ 63 \<and>
   txn_id (txns example_begun_after_wraparound 1) = 2 ^ 63 \<and>
   \<not> - 1 < txn_id (txns example_begun_after_wraparound 1) \<and>
   txn_id (txns example_begun_after_wraparound 1) < - 1"
proof -
  have g: "exec (replicate (2 ^ 64 - 1) GetTimestampOp) (example_counter 0) = Inr (example_counter (- 1))"
    by (simp add: exec_GetTimestamps example_counter_def)
  have e: "exec [BeginOp None] (example_counter (- 1)) = Inr example_wrapped"
    by (simp add: example_defs eval_defs)
  have i: "issued [BeginOp None] (example_counter (- 1)) = [- 1]"
    by (simp add: example_defs eval_defs)
  have r: "- 1 \<in> set (running_set_of example_wrapped None)"
    by (simp add: example_defs eval_defs)
  have w: "txn_id (txns example_wrapped 0) = 2 ^ 63 - 1"
    by (simp add: example_defs eval_defs)
  have w': "txn_id (txns example_wrapped 0) \<noteq> start_time (txns example_wrapped 0) OR 2 ^ 63"
    by (simp add: example_defs eval_defs)
  have b: "BeginTransaction example_wrapped (Some 0) = Inr (1, example_begun_after_wraparound)"
    unfolding example_begun_after_wraparound_def
    by (rule Inr_projr_pair) (simp_all add: example_defs eval_defs)
  have s: "start_time (txns example_begun_after_wraparound 1) = 0"
    by (simp add: example_begun_after_wraparound_def example_defs eval_defs)
  have l: "start_time (txns example_begun_after_wraparound 1) < 2 ^ 63"
    unfolding s by simp
  have d: "txn_id (txns example_begun_after_wraparound 1) = 2 ^ 63"
    by (simp add: example_begun_after_wraparound_def example_defs eval_defs)
  have n: "\<not> - 1 < txn_id (txns example_begun_after_wraparound 1)"
    unfolding d by simp
  have m: "txn_id (txns example_begun_after_wraparound 1) < - 1"
    unfolding d by simp
  show ?thesis by (intro conjI g e i r w w' b s l d n m)
qed

subsection \<open>Concrete commits and aborts\<close>

text \<open>
  An updating commit with logging enabled: commit time 1, stored into undo record 7, and
  the commit record is the last redo record. The same commit with logging disabled: the
  redo buffer keeps its one record and the callback is called. A read-only commit: the
  undo records stay as they are.
\<close>

theorem Commit_paths_witness:
  "(NDEBUG (example_updating (Some 2) UPDATE (Some 0)) \<or>
    start_time (txns (example_updating (Some 2) UPDATE (Some 0)) 0)
      \<in> set (running_set_of (example_updating (Some 2) UPDATE (Some 0))
                (thread_context (txns (example_updating (Some 2) UPDATE (Some 0)) 0)))) \<and>
   \<not> UndoEmpty (undo_buffer (txns (example_updating (Some 2) UPDATE (Some 0)) 0)) \<and>
   log_manager (mgr (example_updating (Some 2) UPDATE (Some 0))) \<noteq> LOGGING_DISABLED \<and>
   (\<exists>st'. Commit (example_updating (Some 2) UPDATE (Some 0)) 0 3 4 = Inr (1, st') \<and>
      time (mgr st') = 2 \<and> txn_id (txns st' 0) = 1 \<and>
      Timestamp (undo_records st' 7) = 1 \<and>
      RedoLastRecord (redo_buffer (txns st' 0)) =
        Some (CommitLog \<lparr>cr_txn_begin = 0, cr_commit_time = 1, cr_callback = 3,
                cr_callback_arg = 4, cr_is_read_only = False, cr_txn = 0\<rparr>)) \<and>
   (NDEBUG (example_updating None UPDATE (Some 0)) \<or>
    start_time (txns (example_updating None UPDATE (Some 0)) 0)
      \<in> set (running_set_of (example_updating None UPDATE (Some 0))
                (thread_context (txns (example_updating None UPDATE (Some 0)) 0)))) \<and>
   \<not> UndoEmpty (undo_buffer (txns (example_updating None UPDATE (Some 0)) 0)) \<and>
   log_manager (mgr (example_updating None UPDATE (Some 0))) = LOGGING_DISABLED \<and>
   (\<exists>st'. Commit (example_updating None UPDATE (Some 0)) 0 3 4 = Inr (1, st') \<and>
      Timestamp (undo_records st' 7) = 1 \<and>
      length (records (redo_buffer (txns st' 0))) = 1 \<and>
      log_processed (txns st' 0) \<and>
      callbacks_invoked st' = [(3, 4)]) \<and>
   (NDEBUG example_begun \<or>
    start_time (txns example_begun 0)
      \<in> set (running_set_of example_begun (thread_context (txns example_begun 0)))) \<and>
   UndoEmpty (undo_buffer (txns example_begun 0)) \<and>
   (\<exists>st'. Commit example_begun 0 3 4 = Inr (6, st') \<and>
      txn_id (txns st' 0) = 6 \<and> undo_records st' = undo_records example_begun)"
proof -
  let ?ex = "example_updating (Some 2) UPDATE (Some 0)"
  let ?un = "example_updating None UPDATE (Some 0)"
  have h: "NDEBUG ?ex \<or> start_time (txns ?ex 0) \<in> set (running_set_of ?ex (thread_context (txns ?ex 0)))"
    by (simp add: example_updating_def eval_defs)
  have ne: "\<not> UndoEmpty (undo_buffer (txns ?ex 0))"
    by (simp add: example_updating_def eval_defs)
  have lg: "log_manager (mgr ?ex) \<noteq> LOGGING_DISABLED"
    by (simp add: example_updating_def eval_defs)
  have tm: "time (mgr ?ex) = 1" "undo_buffer (txns ?ex 0) = [7]" "start_time (txns ?ex 0) = 0"
    by (simp_all add: example_updating_def eval_defs)
  from Commit_paths[OF h, of 3 4] obtain st1 st' where
    c: "Commit ?ex 0 3 4 = Inr (time (mgr ?ex), st')" and
    t: "time (mgr st') = time (mgr ?ex) + 1" and
    i: "txn_id (txns st' 0) = time (mgr ?ex)" and
    u: "undo_buffer (txns st' 0) = undo_buffer (txns ?ex 0)" and
    up: "\<not> UndoEmpty (undo_buffer (txns ?ex 0)) \<longrightarrow>
        st1 = fold (store_Timestamp (time (mgr ?ex))) (undo_buffer (txns ?ex 0))
                (LogCommit (snd (GetTimestamp ?ex)) 0 (time (mgr ?ex)) 3 4) \<and>
        (\<forall>r \<in> set (undo_buffer (txns st' 0)). Timestamp (undo_records st' r) = time (mgr ?ex)) \<and>
        (log_manager (mgr ?ex) \<noteq> LOGGING_DISABLED \<longrightarrow>
           RedoLastRecord (redo_buffer (txns st' 0)) =
             Some (CommitLog \<lparr>cr_txn_begin = start_time (txns ?ex 0), cr_commit_time = time (mgr ?ex),
                     cr_callback = 3, cr_callback_arg = 4, cr_is_read_only = False,
                     cr_txn = 0\<rparr>)) \<and>
        (log_manager (mgr ?ex) = LOGGING_DISABLED \<longrightarrow>
           records (redo_buffer (txns st' 0)) = records (redo_buffer (txns ?ex 0)) \<and>
           log_processed (txns st' 0) \<and>
           callbacks_invoked st' = callbacks_invoked ?ex @ [(3, 4)])"
    by blast
  from up ne lg have
    ts: "\<forall>r \<in> set (undo_buffer (txns st' 0)). Timestamp (undo_records st' r) = time (mgr ?ex)" and
    lr: "RedoLastRecord (redo_buffer (txns st' 0)) =
             Some (CommitLog \<lparr>cr_txn_begin = start_time (txns ?ex 0), cr_commit_time = time (mgr ?ex),
                     cr_callback = 3, cr_callback_arg = 4, cr_is_read_only = False,
                     cr_txn = 0\<rparr>)"
    by blast+
  have "Commit ?ex 0 3 4 = Inr (1, st') \<and>
      time (mgr st') = 2 \<and> txn_id (txns st' 0) = 1 \<and>
      Timestamp (undo_records st' 7) = 1 \<and>
      RedoLastRecord (redo_buffer (txns st' 0)) =
        Some (CommitLog \<lparr>cr_txn_begin = 0, cr_commit_time = 1, cr_callback = 3,
                cr_callback_arg = 4, cr_is_read_only = False, cr_txn = 0\<rparr>)"
    using c t i ts lr by (simp add: tm u)
  then have e: "\<exists>st'. Commit ?ex 0 3 4 = Inr (1, st') \<and>
      time (mgr st') = 2 \<and> txn_id (txns st' 0) = 1 \<and>
      Timestamp (undo_records st' 7) = 1 \<and>
      RedoLastRecord (redo_buffer (txns st' 0)) =
        Some (CommitLog \<lparr>cr_txn_begin = 0, cr_commit_time = 1, cr_callback = 3,
                cr_callback_arg = 4, cr_is_read_only = False, cr_txn = 0\<rparr>)" ..
  have h2: "NDEBUG ?un \<or> start_time (txns ?un 0) \<in> set (running_set_of ?un (thread_context (txns ?un 0)))"
    by (simp add: example_updating_def eval_defs)
  have ne2: "\<not> UndoEmpty (undo_buffer (txns ?un 0))"
    by (simp add: example_updating_def eval_defs)
  have ld: "log_manager (mgr ?un) = LOGGING_DISABLED"
    by (simp add: example_updating_def eval_defs)
  have tm2: "time (mgr ?un) = 1" "undo_buffer (txns ?un 0) = [7]"
    "length (records (redo_buffer (txns ?un 0))) = 1" "callbacks_invoked ?un = []"
    by (simp_all add: example_updating_def eval_defs)
  from Commit_paths[OF h2, of 3 4] obtain sa sb where
    c2: "Commit ?un 0 3 4 = Inr (time (mgr ?un), sb)" and
    u2: "undo_buffer (txns sb 0) = undo_buffer (txns ?un 0)" and
    up2: "\<not> UndoEmpty (undo_buffer (txns ?un 0)) \<longrightarrow>
        sa = fold (store_Timestamp (time (mgr ?un))) (undo_buffer (txns ?un 0))
                (LogCommit (snd (GetTimestamp ?un)) 0 (time (mgr ?un)) 3 4) \<and>
        (\<forall>r \<in> set (undo_buffer (txns sb 0)). Timestamp (undo_records sb r) = time (mgr ?un)) \<and>
        (log_manager (mgr ?un) \<noteq> LOGGING_DISABLED \<longrightarrow>
           RedoLastRecord (redo_buffer (txns sb 0)) =
             Some (CommitLog \<lparr>cr_txn_begin = start_time (txns ?un 0), cr_commit_time = time (mgr ?un),
                     cr_callback = 3, cr_callback_arg = 4, cr_is_read_only = False,
                     cr_txn = 0\<rparr>)) \<and>
        (log_manager (mgr ?un) = LOGGING_DISABLED \<longrightarrow>
           records (redo_buffer (txns sb 0)) = records (redo_buffer (txns ?un 0)) \<and>
           log_processed (txns sb 0) \<and>
           callbacks_invoked sb = callbacks_invoked ?un @ [(3, 4)])"
    by blast
  from up2 ne2 ld have
    ts2: "\<forall>r \<in> set (undo_buffer (txns sb 0)). Timestamp (undo_records sb r) = time (mgr ?un)" and
    rc2: "records (redo_buffer (txns sb 0)) = records (redo_buffer (txns ?un 0))" and
    lp2: "log_processed (txns sb 0)" and
    cb2: "callbacks_invoked sb = callbacks_invoked ?un @ [(3, 4)]"
    by blast+
  have "Commit ?un 0 3 4 = Inr (1, sb) \<and>
      Timestamp (undo_records sb 7) = 1 \<and>
      length (records (redo_buffer (txns sb 0))) = 1 \<and>
      log_processed (txns sb 0) \<and>
      callbacks_invoked sb = [(3, 4)]"
    using c2 ts2 rc2 lp2 cb2 by (simp add: tm2 u2)
  then have e2: "\<exists>st'. Commit ?un 0 3 4 = Inr (1, st') \<and>
      Timestamp (undo_records st' 7) = 1 \<and>
      length (records (redo_buffer (txns st' 0))) = 1 \<and>
      log_processed (txns st' 0) \<and>
      callbacks_invoked st' = [(3, 4)]" ..
  have h3: "NDEBUG example_begun \<or>
    start_time (txns example_begun 0)
      \<in> set (running_set_of example_begun (thread_context (txns example_begun 0)))"
    by (simp add: example_defs eval_defs)
  have em: "UndoEmpty (undo_buffer (txns example_begun 0))"
    by (simp add: example_defs eval_defs)
  have tm3: "time (mgr example_begun) = 6" by (simp add: example_defs eval_defs)
  from Commit_paths[OF h3, of 3 4] obtain sc sd where
    c3: "Commit example_begun 0 3 4 = Inr (time (mgr example_begun), sd)" and
    i3: "txn_id (txns sd 0) = time (mgr example_begun)" and
    ro: "UndoEmpty (undo_buffer (txns example_begun 0)) \<longrightarrow> undo_records sd = undo_records example_begun"
    by blast
  have "Commit example_begun 0 3 4 = Inr (6, sd) \<and>
      txn_id (txns sd 0) = 6 \<and> undo_records sd = undo_records example_begun"
    using c3 i3 ro em by (simp add: tm3)
  then have e3: "\<exists>st'. Commit example_begun 0 3 4 = Inr (6, st') \<and>
      txn_id (txns st' 0) = 6 \<and> undo_records st' = undo_records example_begun" ..
  show ?thesis by (intro conjI h ne lg e h2 ne2 ld e2 h3 em e3)
qed

text \<open>
  Claim C1 as stated fails where logging is disabled: the transaction has an undo record,
  \<^verbatim>\<open>Commit\<close> takes the updating path and stores the commit time 1 into the undo record,
  and no commit record is emitted: the redo buffer holds the one \<^verbatim>\<open>REDO\<close> record it held
  before.
\<close>

theorem Commit_emits_no_commit_record_when_logging_disabled:
  "\<not> UndoEmpty (undo_buffer (txns (example_updating None UPDATE (Some 0)) 0)) \<and>
   log_manager (mgr (example_updating None UPDATE (Some 0))) = LOGGING_DISABLED \<and>
   UpdatingCommitCriticalSection (example_updating None UPDATE (Some 0)) 0 3 4 =
     (1, snd (UpdatingCommitCriticalSection (example_updating None UPDATE (Some 0)) 0 3 4)) \<and>
   Commit (example_updating None UPDATE (Some 0)) 0 3 4 = Inr (1, example_committed_unlogged) \<and>
   Timestamp (undo_records example_committed_unlogged 7) = 1 \<and>
   records (redo_buffer (txns example_committed_unlogged 0)) =
     records (redo_buffer (txns (example_updating None UPDATE (Some 0)) 0)) \<and>
   map RecordType (records (redo_buffer (txns example_committed_unlogged 0))) = [REDO] \<and>
   map RecordType
     (records (redo_buffer (txns (snd (UpdatingCommitCriticalSection
                                         (example_updating None UPDATE (Some 0)) 0 3 4)) 0))) = [REDO] \<and>
   COMMIT \<notin> set (map RecordType (records (redo_buffer (txns example_committed_unlogged 0))))"
proof -
  let ?un = "example_updating None UPDATE (Some 0)"
  have ne: "\<not> UndoEmpty (undo_buffer (txns ?un 0))"
    by (simp add: example_updating_def eval_defs)
  have ld: "log_manager (mgr ?un) = LOGGING_DISABLED"
    by (simp add: example_updating_def eval_defs)
  have cs: "UpdatingCommitCriticalSection ?un 0 3 4 = (1, snd (UpdatingCommitCriticalSection ?un 0 3 4))"
    by (simp add: example_updating_def eval_defs)
  have c: "Commit ?un 0 3 4 = Inr (1, example_committed_unlogged)"
    unfolding example_committed_unlogged_def
    by (rule Inr_projr_pair) (simp_all add: example_updating_def eval_defs)
  have ts: "Timestamp (undo_records example_committed_unlogged 7) = 1"
    by (simp add: example_committed_unlogged_def example_updating_def eval_defs)
  have rc: "records (redo_buffer (txns example_committed_unlogged 0)) =
     records (redo_buffer (txns ?un 0))"
    by (simp add: example_committed_unlogged_def example_updating_def eval_defs)
  have ty: "map RecordType (records (redo_buffer (txns example_committed_unlogged 0))) = [REDO]"
    by (simp add: example_committed_unlogged_def example_updating_def eval_defs)
  have ty1: "map RecordType
     (records (redo_buffer (txns (snd (UpdatingCommitCriticalSection ?un 0 3 4)) 0))) = [REDO]"
    by (simp add: example_updating_def eval_defs)
  have no: "COMMIT \<notin> set (map RecordType (records (redo_buffer (txns example_committed_unlogged 0))))"
    unfolding ty by simp
  show ?thesis by (intro conjI ne ld cs c ts rc ty ty1 no)
qed

text \<open>
  Claim C8 as stated fails where the last redo record is a \<^verbatim>\<open>REDO\<close> and the undo buffer
  is empty: \<^verbatim>\<open>GCLastUpdateOnAbort\<close> reads the slot and the table of the last undo record
  through a null pointer and does not return, with assertions compiled out or in, and
  \<^verbatim>\<open>Abort\<close> of that transaction stops there.
\<close>

theorem GCLastUpdateOnAbort_null_last_undo_record:
  "RedoLastRecord (redo_buffer (txns (example_staged True) 0)) =
     Some (RedoLog \<lparr>GetTupleSlot = 4, GetDataTable = 0,
             RedoDelta = [(1, Some \<lparr>Content = 99, IsGathered = False\<rparr>), (2, None),
                          (3, Some \<lparr>Content = 98, IsGathered = False\<rparr>)]\<rparr>) \<and>
   UndoLastRecord (undo_buffer (txns (example_staged True) 0)) = None \<and>
   \<not> last_update_uninstalled (example_staged True) 0 \<and>
   \<not> last_update_checks (example_staged True) 0 \<and>
   GCLastUpdateOnAbort (example_staged True) 0 = Inl NullPointerDereference \<and>
   GCLastUpdateOnAbort (example_staged False) 0 = Inl NullPointerDereference \<and>
   GCLastUpdateOnAbort (example_staged True) 0 \<noteq> Inr (example_staged True) \<and>
   Abort (example_staged True) 0 = Inl NullPointerDereference"
proof -
  have r: "RedoLastRecord (redo_buffer (txns (example_staged True) 0)) =
     Some (RedoLog \<lparr>GetTupleSlot = 4, GetDataTable = 0,
             RedoDelta = [(1, Some \<lparr>Content = 99, IsGathered = False\<rparr>), (2, None),
                          (3, Some \<lparr>Content = 98, IsGathered = False\<rparr>)]\<rparr>)"
    by (simp add: example_staged_def example_updating_def eval_defs)
  have u: "UndoLastRecord (undo_buffer (txns (example_staged True) 0)) = None"
    by (simp add: example_staged_def example_updating_def eval_defs)
  have n: "\<not> last_update_uninstalled (example_staged True) 0"
    by (simp add: last_update_uninstalled_def r u)
  have k: "\<not> last_update_checks (example_staged True) 0"
    by (simp add: last_update_checks_def r u)
  have g: "GCLastUpdateOnAbort (example_staged True) 0 = Inl NullPointerDereference"
    by (simp add: example_staged_def example_updating_def eval_defs)
  have g': "GCLastUpdateOnAbort (example_staged False) 0 = Inl NullPointerDereference"
    by (simp add: example_staged_def example_updating_def eval_defs)
  have d: "GCLastUpdateOnAbort (example_staged True) 0 \<noteq> Inr (example_staged True)"
    unfolding g by simp
  have a: "Abort (example_staged True) 0 = Inl NullPointerDereference"
    by (simp add: example_staged_def example_updating_def eval_defs)
  show ?thesis by (intro conjI r u n k g g' d a)
qed

end
